theory Spec2Isabelle
  imports Main "HOL-Library.Sublist" "HOL-Library.AList"
begin

section \<open>Values and dictionaries\<close>

text \<open>
  The program handles tasks as Python dictionaries decoded from JSON
  (\<^verbatim>\<open>Dict[str, Any]\<close>). A value is what \<^verbatim>\<open>json\<close> decodes: \<^verbatim>\<open>None\<close>, a
  boolean, an integer, a string, a list or an object. Non-integral numbers are left out:
  no field the program reads is one. An object nested in a value is a list of
  key/value pairs; a dictionary the program reads by key is a map.
\<close>

datatype json =
    JNull
  | JBool bool
  | JInt int
  | JStr string
  | JList "json list"
  | JObj "(string \<times> json) list"

type_synonym pydict = "string \<Rightarrow> json option"

text \<open>
  The exceptions the modelled code can raise: the client's own
  \<^verbatim>\<open>TickTickAPIError\<close>, and those Python raises by itself on a value of the wrong
  shape. \<^verbatim>\<open>OtherError\<close> stands for anything else a client call may raise.
\<close>

datatype exn = TickTickAPIError | AttributeError | TypeError | KeyError | OtherError

text \<open>\<^verbatim>\<open>d.get(key, default)\<close> and \<^verbatim>\<open>d[key]\<close>.\<close>

definition dict_get :: "pydict \<Rightarrow> string \<Rightarrow> json \<Rightarrow> json" where
  "dict_get d key dflt = (case d key of None \<Rightarrow> dflt | Some v \<Rightarrow> v)"

definition dict_item :: "pydict \<Rightarrow> string \<Rightarrow> exn + json" where
  "dict_item d key = (case d key of None \<Rightarrow> Inl KeyError | Some v \<Rightarrow> Inr v)"

text \<open>Python's truth value of a value (\<^verbatim>\<open>if v:\<close>, \<^verbatim>\<open>not v\<close>).\<close>

fun truthy :: "json \<Rightarrow> bool" where
  "truthy JNull = False"
| "truthy (JBool b) = b"
| "truthy (JInt i) = (i \<noteq> 0)"
| "truthy (JStr s) = (s \<noteq> [])"
| "truthy (JList xs) = (xs \<noteq> [])"
| "truthy (JObj kvs) = (kvs \<noteq> [])"

text \<open>
  A list or a dictionary cannot be a member of a Python set (\<^verbatim>\<open>TypeError: unhashable\<close>).
  Set membership compares with \<^verbatim>\<open>==\<close>, under which \<^verbatim>\<open>True == 1\<close> and
  \<^verbatim>\<open>False == 0\<close>: \<open>py_key\<close> maps a value to the representative that stands for it
  in a set.
\<close>

fun hashable :: "json \<Rightarrow> bool" where
  "hashable (JList xs) = False"
| "hashable (JObj kvs) = False"
| "hashable v = True"

fun py_key :: "json \<Rightarrow> json" where
  "py_key (JBool b) = JInt (if b then 1 else 0)"
| "py_key v = v"

text \<open>\<^verbatim>\<open>a in b\<close> on two strings: \<open>a\<close> occurs in \<open>b\<close> as a contiguous run.\<close>

fun str_in :: "string \<Rightarrow> string \<Rightarrow> bool" where
  "str_in a [] = (a = [])"
| "str_in a (c # cs) = (prefix a (c # cs) \<or> str_in a cs)"

text \<open>
  \<^verbatim>\<open>tag in task_tags\<close> for a string \<open>tag\<close>: membership in a list, substring of a
  string, key of a dictionary; any other value is not a container.
\<close>

fun py_in :: "string \<Rightarrow> json \<Rightarrow> exn + bool" where
  "py_in tag (JList xs) = Inr (JStr tag \<in> set xs)"
| "py_in tag (JStr s) = Inr (str_in tag s)"
| "py_in tag (JObj kvs) = Inr (tag \<in> set (map fst kvs))"
| "py_in tag v = Inl TypeError"

text \<open>
  \<^verbatim>\<open>v.lower()\<close>: only a string has the method. Python's \<^verbatim>\<open>str.lower\<close> itself is a
  parameter \<open>lower\<close> of the model, so that what is proved holds for the library's
  function whatever it does outside ASCII. \<open>ascii_lower\<close> is its restriction to ASCII
  text, used where a concrete run is evaluated.
\<close>

definition py_lower :: "(string \<Rightarrow> string) \<Rightarrow> json \<Rightarrow> exn + string" where
  "py_lower lower v = (case v of JStr s \<Rightarrow> Inr (lower s) | _ \<Rightarrow> Inl AttributeError)"

definition ascii_lower_char :: "char \<Rightarrow> char" where
  "ascii_lower_char c =
     (if (65::nat) \<le> of_char c \<and> of_char c \<le> (90::nat)
      then (case c of Char b0 b1 b2 b3 b4 b5 b6 b7 \<Rightarrow> Char b0 b1 b2 b3 b4 True b6 b7)
      else c)"

definition ascii_lower :: "string \<Rightarrow> string" where
  "ascii_lower s = map ascii_lower_char s"

section \<open>The filter predicate\<close>

text \<open>
  \<^verbatim>\<open>TaskDuplicator._matches_filters\<close> (automation.py) and \<^verbatim>\<open>matches_filters\<close>
  (automations/duplicate_completed_tasks.py) have the same body; the filters are the
  object's attributes in the first and arguments in the second.
  \<^verbatim>\<open>any(tag in task_tags for tag in tag_filters)\<close> tests the tags in order and stops at
  the first that is found.
\<close>

fun any_tag_in :: "string list \<Rightarrow> json \<Rightarrow> exn + bool" where
  "any_tag_in [] task_tags = Inr False"
| "any_tag_in (tag # tags) task_tags =
     (case py_in tag task_tags of
        Inl e \<Rightarrow> Inl e
      | Inr found \<Rightarrow> if found then Inr True else any_tag_in tags task_tags)"

definition name_filter_ok :: "(string \<Rightarrow> string) \<Rightarrow> string option \<Rightarrow> pydict \<Rightarrow> exn + bool" where
  "name_filter_ok lower name_filter task =
     (case name_filter of
        None \<Rightarrow> Inr True
      | Some nf \<Rightarrow>
          if nf = [] then Inr True
          else (case py_lower lower (dict_get task ''title'' (JStr [])) of
                  Inl e \<Rightarrow> Inl e
                | Inr task_title \<Rightarrow> Inr (str_in (lower nf) task_title)))"

definition tag_filters_ok :: "string list \<Rightarrow> pydict \<Rightarrow> exn + bool" where
  "tag_filters_ok tag_filters task =
     (if tag_filters = [] then Inr True
      else any_tag_in tag_filters (dict_get task ''tags'' (JList [])))"

definition matches_filters ::
  "(string \<Rightarrow> string) \<Rightarrow> string option \<Rightarrow> string list \<Rightarrow> pydict \<Rightarrow> exn + bool" where
  "matches_filters lower name_filter tag_filters task =
     (case name_filter_ok lower name_filter task of
        Inl e \<Rightarrow> Inl e
      | Inr ok \<Rightarrow> if \<not> ok then Inr False else tag_filters_ok tag_filters task)"

text \<open>
  The filter as the specification words it. A filter is absent when it is \<^verbatim>\<open>None\<close>
  or empty (the configuration turns an empty name into \<^verbatim>\<open>None\<close>, and the tag filter
  is a list that is empty when no tag is required). The title of a task without one is
  the empty string and its tags are the strings of its tag list.
\<close>

definition name_filter_absent :: "string option \<Rightarrow> bool" where
  "name_filter_absent name_filter = (name_filter = None \<or> name_filter = Some [])"

definition task_title :: "pydict \<Rightarrow> string" where
  "task_title task = (case task ''title'' of Some (JStr s) \<Rightarrow> s | _ \<Rightarrow> [])"

definition task_tag_set :: "pydict \<Rightarrow> string set" where
  "task_tag_set task = (case task ''tags'' of Some (JList xs) \<Rightarrow> {s. JStr s \<in> set xs} | _ \<Rightarrow> {})"

definition spec_filter ::
  "(string \<Rightarrow> string) \<Rightarrow> string option \<Rightarrow> string list \<Rightarrow> pydict \<Rightarrow> bool" where
  "spec_filter lower name_filter tag_filters task =
     ((name_filter_absent name_filter \<or>
        (\<exists>nf. name_filter = Some nf \<and> sublist (lower nf) (lower (task_title task)))) \<and>
      (tag_filters = [] \<or> task_tag_set task \<inter> set tag_filters \<noteq> {}))"

text \<open>
  The shape the data model gives the two fields the filter reads: a title, when there is
  one, is a string, and the tags, when there are any, are a list.
\<close>

definition filter_fields_typed :: "pydict \<Rightarrow> bool" where
  "filter_fields_typed task =
     ((case task ''title'' of None \<Rightarrow> True | Some v \<Rightarrow> (case v of JStr s \<Rightarrow> True | _ \<Rightarrow> False)) \<and>
      (case task ''tags'' of None \<Rightarrow> True | Some v \<Rightarrow> (case v of JList xs \<Rightarrow> True | _ \<Rightarrow> False)))"

section \<open>The task transformer\<close>

text \<open>
  \<^verbatim>\<open>create_duplicate_task\<close> (utils/helpers.py), which
  \<^verbatim>\<open>TaskDuplicator._create_duplicate_task\<close> (automation.py) repeats line by line: a
  dictionary literal of six keys, and \<^verbatim>\<open>items\<close> added when the original has the key
  with a true value.
\<close>

definition create_duplicate_task :: "pydict \<Rightarrow> pydict" where
  "create_duplicate_task original_task =
     (let new_task = [''title'' \<mapsto> dict_get original_task ''title'' JNull,
                      ''projectId'' \<mapsto> dict_get original_task ''projectId'' JNull,
                      ''content'' \<mapsto> dict_get original_task ''content'' (JStr []),
                      ''desc'' \<mapsto> dict_get original_task ''desc'' (JStr []),
                      ''priority'' \<mapsto> dict_get original_task ''priority'' (JInt 0),
                      ''tags'' \<mapsto> dict_get original_task ''tags'' (JList [])]
      in case original_task ''items'' of
           None \<Rightarrow> new_task
         | Some v \<Rightarrow> if truthy v then new_task(''items'' \<mapsto> v) else new_task)"

text \<open>
  \<^verbatim>\<open>duplicate_task_without_due_date\<close>
  (ticktick/automations/01_duplicate_completed_without_due_date.py): the same function
  with five keys in the literal.
\<close>

definition duplicate_task_without_due_date :: "pydict \<Rightarrow> pydict" where
  "duplicate_task_without_due_date original_task =
     (let new_task = [''title'' \<mapsto> dict_get original_task ''title'' JNull,
                      ''projectId'' \<mapsto> dict_get original_task ''projectId'' JNull,
                      ''content'' \<mapsto> dict_get original_task ''content'' (JStr []),
                      ''desc'' \<mapsto> dict_get original_task ''desc'' (JStr []),
                      ''priority'' \<mapsto> dict_get original_task ''priority'' (JInt 0)]
      in case original_task ''items'' of
           None \<Rightarrow> new_task
         | Some v \<Rightarrow> if truthy v then new_task(''items'' \<mapsto> v) else new_task)"

section \<open>The reconciliation pass\<close>

text \<open>
  The statistics dictionary of a pass has four fixed keys; Python's integers are
  unbounded.
\<close>

record statistics =
  checked :: int
  matched :: int
  duplicated :: int
  errors :: int

definition zero_stats :: statistics where
  "zero_stats = \<lparr>checked = 0, matched = 0, duplicated = 0, errors = 0\<rparr>"

text \<open>
  The client is an argument of the pass (an attribute of \<^verbatim>\<open>TaskDuplicator\<close>, a
  parameter of \<^verbatim>\<open>run_automation\<close> and of \<^verbatim>\<open>automation\<close>): each of its methods is
  a function of the state \<open>'w\<close> of the world outside the program (the remote service,
  the clock), which returns the method's result or the exception it raises, and the
  world after the call. What the remote service answers, and how the tasks change
  between two calls, is whatever these functions say.
\<close>

record 'w client =
  get_completed_tasks :: "'w \<Rightarrow> (exn + pydict list) \<times> 'w"
  get_all_pending_tasks :: "'w \<Rightarrow> (exn + pydict list) \<times> 'w"
  get_task :: "json \<Rightarrow> json \<Rightarrow> 'w \<Rightarrow> (exn + pydict) \<times> 'w"
  create_task :: "pydict \<Rightarrow> 'w \<Rightarrow> (exn + pydict) \<times> 'w"

text \<open>
  What a pass does is recorded in a trace, in order: each evaluation of the filter on a
  task, each call of \<^verbatim>\<open>create_task\<close> (with the task it is made for and the payload
  sent), and each call that saves the processed identifiers to the state file.
\<close>

datatype event =
    FilterEvaluated pydict
  | CreateTaskCalled pydict pydict
  | StateSaved "json set"

text \<open>
  The state a pass works on: the set of processed identifiers
  (\<^verbatim>\<open>self.processed_task_ids\<close>, or the local \<^verbatim>\<open>processed_task_ids\<close> read from the
  state file), the statistics, the trace and the world.
\<close>

record 'w run_state =
  processed_task_ids :: "json set"
  stats :: statistics
  trace :: "event list"
  world :: 'w

text \<open>
  The body of the loop \<^verbatim>\<open>for task in completed_tasks\<close>. It is the same in
  \<^verbatim>\<open>TaskDuplicator.process_completed_tasks\<close> (automation.py) and in
  \<^verbatim>\<open>run_automation\<close> (automations/duplicate_completed_tasks.py), but for the guard
  \<^verbatim>\<open>if not task_id: continue\<close> that only the second has: \<open>require_id\<close> says
  whether the guard is there. The result is the exception that leaves the loop, if any,
  and the state. \<^verbatim>\<open>task_id in processed_task_ids\<close> raises on an unhashable value;
  the inner \<^verbatim>\<open>try\<close> catches \<^verbatim>\<open>TickTickAPIError\<close> only.
\<close>

definition process_task ::
  "bool \<Rightarrow> (string \<Rightarrow> string) \<Rightarrow> 'w client \<Rightarrow> string option \<Rightarrow> string list \<Rightarrow>
   pydict \<Rightarrow> 'w run_state \<Rightarrow> exn option \<times> 'w run_state" where
  "process_task require_id lower client name_filter tag_filters task s0 =
     (let s = s0\<lparr>stats := (stats s0)\<lparr>checked := checked (stats s0) + 1\<rparr>\<rparr>;
          task_id = dict_get task ''id'' JNull
      in if require_id \<and> \<not> truthy task_id then (None, s)
         else if \<not> hashable task_id then (Some TypeError, s)
         else if py_key task_id \<in> processed_task_ids s then (None, s)
         else
           (let s1 = s\<lparr>trace := trace s @ [FilterEvaluated task]\<rparr> in
            case matches_filters lower name_filter tag_filters task of
              Inl e \<Rightarrow> (Some e, s1)
            | Inr ok \<Rightarrow>
                if \<not> ok
                then (None, s1\<lparr>processed_task_ids :=
                                  insert (py_key task_id) (processed_task_ids s1)\<rparr>)
                else
                  (let s2 = s1\<lparr>stats := (stats s1)\<lparr>matched := matched (stats s1) + 1\<rparr>\<rparr>;
                       new_task_data = create_duplicate_task task;
                       s3 = s2\<lparr>trace := trace s2 @ [CreateTaskCalled task new_task_data]\<rparr>
                   in case create_task client new_task_data (world s3) of
                        (Inr new_task, w) \<Rightarrow>
                          (None,
                           s3\<lparr>stats := (stats s3)\<lparr>duplicated := duplicated (stats s3) + 1\<rparr>,
                              processed_task_ids :=
                                insert (py_key task_id) (processed_task_ids s3),
                              world := w\<rparr>)
                      | (Inl e, w) \<Rightarrow>
                          if e = TickTickAPIError
                          then (None,
                                s3\<lparr>stats := (stats s3)\<lparr>errors := errors (stats s3) + 1\<rparr>,
                                   world := w\<rparr>)
                          else (Some e, s3\<lparr>world := w\<rparr>))))"

fun process_tasks ::
  "bool \<Rightarrow> (string \<Rightarrow> string) \<Rightarrow> 'w client \<Rightarrow> string option \<Rightarrow> string list \<Rightarrow>
   pydict list \<Rightarrow> 'w run_state \<Rightarrow> exn option \<times> 'w run_state" where
  "process_tasks require_id lower client name_filter tag_filters [] s = (None, s)"
| "process_tasks require_id lower client name_filter tag_filters (task # tasks) s =
     (case process_task require_id lower client name_filter tag_filters task s of
        (None, s') \<Rightarrow> process_tasks require_id lower client name_filter tag_filters tasks s'
      | (Some e, s') \<Rightarrow> (Some e, s'))"

text \<open>
  The outer \<^verbatim>\<open>except TickTickAPIError\<close>: it counts one error and the pass returns its
  statistics; any other exception leaves the pass.
\<close>

definition on_exception :: "exn \<Rightarrow> 'w run_state \<Rightarrow> (exn + statistics) \<times> 'w run_state" where
  "on_exception e s =
     (if e = TickTickAPIError
      then (let s' = s\<lparr>stats := (stats s)\<lparr>errors := errors (stats s) + 1\<rparr>\<rparr>
            in (Inr (stats s'), s'))
      else (Inl e, s))"

text \<open>
  A pass: fresh statistics, the fetch, the loop, and the save after the loop. The
  result is the statistics returned, or the exception that leaves the pass, and the
  state at that point. \<^verbatim>\<open>run_automation\<close> hands the fetch the time one day before
  now; the clock is part of the world, and what the fetch does with the time is the
  client's business.
\<close>

definition reconcile ::
  "bool \<Rightarrow> (string \<Rightarrow> string) \<Rightarrow> 'w client \<Rightarrow> string option \<Rightarrow> string list \<Rightarrow>
   'w run_state \<Rightarrow> (exn + statistics) \<times> 'w run_state" where
  "reconcile require_id lower client name_filter tag_filters s0 =
     (let s = s0\<lparr>stats := zero_stats\<rparr> in
      case get_completed_tasks client (world s) of
        (Inl e, w) \<Rightarrow> on_exception e (s\<lparr>world := w\<rparr>)
      | (Inr completed_tasks, w) \<Rightarrow>
          (case process_tasks require_id lower client name_filter tag_filters
                  completed_tasks (s\<lparr>world := w\<rparr>) of
             (Some e, s') \<Rightarrow> on_exception e s'
           | (None, s') \<Rightarrow>
               (Inr (stats s'),
                s'\<lparr>trace := trace s' @ [StateSaved (processed_task_ids s')]\<rparr>)))"

text \<open>
  \<^verbatim>\<open>TaskDuplicator.process_completed_tasks\<close>: the set is the object's attribute, so the
  state a call leaves is the state the next call on the object starts from.
\<close>

definition process_completed_tasks ::
  "(string \<Rightarrow> string) \<Rightarrow> 'w client \<Rightarrow> string option \<Rightarrow> string list \<Rightarrow>
   'w run_state \<Rightarrow> (exn + statistics) \<times> 'w run_state" where
  "process_completed_tasks lower client name_filter tag_filters s =
     reconcile False lower client name_filter tag_filters s"

text \<open>
  \<^verbatim>\<open>run_automation\<close>: the filters are \<^verbatim>\<open>config["name_filter"]\<close> and
  \<^verbatim>\<open>config["tag_filters"]\<close>, and \<open>processed_task_ids s\<close> is the set that
  \<^verbatim>\<open>get_processed_tasks(state_file)\<close> returned.
\<close>

definition run_automation ::
  "(string \<Rightarrow> string) \<Rightarrow> 'w client \<Rightarrow> string option \<Rightarrow> string list \<Rightarrow>
   'w run_state \<Rightarrow> (exn + statistics) \<times> 'w run_state" where
  "run_automation lower client name_filter tag_filters s =
     reconcile True lower client name_filter tag_filters s"

text \<open>Calls of \<^verbatim>\<open>process_completed_tasks\<close> on one object, one after the other.\<close>

fun passes ::
  "nat \<Rightarrow> (string \<Rightarrow> string) \<Rightarrow> 'w client \<Rightarrow> string option \<Rightarrow> string list \<Rightarrow>
   'w run_state \<Rightarrow> 'w run_state" where
  "passes 0 lower client name_filter tag_filters s = s"
| "passes (Suc n) lower client name_filter tag_filters s =
     passes n lower client name_filter tag_filters
       (snd (process_completed_tasks lower client name_filter tag_filters s))"

text \<open>The events a pass added to the trace, and the task an event is about.\<close>

definition new_events :: "'w run_state \<Rightarrow> 'w run_state \<Rightarrow> event list" where
  "new_events s s' = drop (length (trace s)) (trace s')"

definition task_id_of :: "pydict \<Rightarrow> json" where
  "task_id_of task = dict_get task ''id'' JNull"

section \<open>Fetching the completed tasks\<close>

text \<open>
  \<^verbatim>\<open>TickTickClient.get_completed_tasks\<close> of ticktick_automations/utils/ticktick_api.py.
  \<^verbatim>\<open>get_projects\<close> and \<^verbatim>\<open>get_project_data\<close> wrap one HTTP request each and are
  parameters. The tasks of a project are the value under \<^verbatim>\<open>"tasks"\<close> of the project's
  data: the inner loop iterates over that value, and each element is read as a
  dictionary (an object's pairs have distinct keys). The loop body skips a task whose
  status is not 2 and prints the title and status of the others; nothing else stands in
  it (the date filter is commented out), and \<open>completed_tasks\<close> is returned as it was
  created. \<open>from_date\<close> is not read.
\<close>

fun py_iter :: "json \<Rightarrow> exn + json list" where
  "py_iter (JList xs) = Inr xs"
| "py_iter (JStr s) = Inr (map (\<lambda>c. JStr [c]) s)"
| "py_iter (JObj kvs) = Inr (map (\<lambda>kv. JStr (fst kv)) kvs)"
| "py_iter v = Inl TypeError"

fun scan_project_tasks :: "json list \<Rightarrow> json list \<Rightarrow> exn + json list" where
  "scan_project_tasks [] completed_tasks = Inr completed_tasks"
| "scan_project_tasks (task # tasks) completed_tasks =
     (case task of
        JObj kvs \<Rightarrow>
          if dict_get (map_of kvs) ''status'' (JInt 0) \<noteq> JInt 2
          then scan_project_tasks tasks completed_tasks
          else (case dict_item (map_of kvs) ''title'' of
                  Inl e \<Rightarrow> Inl e
                | Inr title \<Rightarrow> scan_project_tasks tasks completed_tasks)
      | _ \<Rightarrow> Inl AttributeError)"

fun scan_projects ::
  "(json \<Rightarrow> 'w \<Rightarrow> (exn + pydict) \<times> 'w) \<Rightarrow> json list \<Rightarrow> json list \<Rightarrow> 'w \<Rightarrow>
   (exn + json list) \<times> 'w" where
  "scan_projects get_project_data [] completed_tasks w = (Inr completed_tasks, w)"
| "scan_projects get_project_data (project_id # project_ids) completed_tasks w =
     (case get_project_data project_id w of
        (Inl e, w') \<Rightarrow> (Inl e, w')
      | (Inr response, w') \<Rightarrow>
          (case py_iter (dict_get response ''tasks'' (JList [])) of
             Inl e \<Rightarrow> (Inl e, w')
           | Inr tasks \<Rightarrow>
               (case scan_project_tasks tasks completed_tasks of
                  Inl e \<Rightarrow> (Inl e, w')
                | Inr completed_tasks' \<Rightarrow>
                    scan_projects get_project_data project_ids completed_tasks' w')))"

fun project_ids_of :: "pydict list \<Rightarrow> exn + json list" where
  "project_ids_of [] = Inr []"
| "project_ids_of (proj # projs) =
     (case dict_item proj ''id'' of
        Inl e \<Rightarrow> Inl e
      | Inr i \<Rightarrow> (case project_ids_of projs of Inl e \<Rightarrow> Inl e | Inr ids \<Rightarrow> Inr (i # ids)))"

definition TickTickClient_get_completed_tasks ::
  "('w \<Rightarrow> (exn + pydict list) \<times> 'w) \<Rightarrow> (json \<Rightarrow> 'w \<Rightarrow> (exn + pydict) \<times> 'w) \<Rightarrow>
   json option \<Rightarrow> int option \<Rightarrow> 'w \<Rightarrow> (exn + json list) \<times> 'w" where
  "TickTickClient_get_completed_tasks get_projects get_project_data project_id from_date w =
     (case project_id of
        Some p \<Rightarrow> scan_projects get_project_data [p] [] w
      | None \<Rightarrow>
          (case get_projects w of
             (Inl e, w') \<Rightarrow> (Inl e, w')
           | (Inr projs, w') \<Rightarrow>
               (case project_ids_of projs of
                  Inl e \<Rightarrow> (Inl e, w')
                | Inr project_ids \<Rightarrow> scan_projects get_project_data project_ids [] w')))"

text \<open>
  What the function is to return, in the specification's words: the tasks of the
  queried projects whose status is 2, in the order of the answers.
\<close>

definition completed_of :: "json list \<Rightarrow> json list" where
  "completed_of tasks =
     filter (\<lambda>task. case task of
                JObj kvs \<Rightarrow> dict_get (map_of kvs) ''status'' (JInt 0) = JInt 2
              | _ \<Rightarrow> False) tasks"

section \<open>The pass over the pending tasks\<close>

text \<open>
  \<^verbatim>\<open>automation\<close> of ticktick/automations/01_duplicate_completed_without_due_date.py.
  Its state is a dictionary from task identifier to task, kept in insertion order as a
  list of pairs; the keys of the state read from the file are strings.
  \<open>index_by_id\<close> is the comprehension \<^verbatim>\<open>{task["id"]: task for task in ...}\<close>.
\<close>

fun index_by_id :: "pydict list \<Rightarrow> (json \<times> pydict) list \<Rightarrow> exn + (json \<times> pydict) list" where
  "index_by_id [] new_state = Inr new_state"
| "index_by_id (task # tasks) new_state =
     (case dict_item task ''id'' of
        Inl e \<Rightarrow> Inl e
      | Inr k \<Rightarrow>
          if \<not> hashable k then Inl TypeError
          else index_by_id tasks (AList.update (py_key k) task new_state))"

text \<open>
  The loop over the identifiers of the old state that the new one lacks. Python
  iterates over a set in an order of its own; the model takes the identifiers in the
  order \<open>ids\<close> lists them. For a task that was completed, the message logged before
  the duplication reads \<^verbatim>\<open>task['title']\<close>. No exception is caught in this function.
\<close>

fun duplicate_missing ::
  "'w client \<Rightarrow> (string \<times> pydict) list \<Rightarrow> string list \<Rightarrow> (json \<times> pydict) list \<Rightarrow> 'w \<Rightarrow>
   (exn + (json \<times> pydict) list) \<times> 'w" where
  "duplicate_missing client old_state [] new_state w = (Inr new_state, w)"
| "duplicate_missing client old_state (task_id # ids) new_state w =
     (case map_of old_state task_id of
        None \<Rightarrow> (Inl KeyError, w)
      | Some old_task \<Rightarrow>
          (case dict_item old_task ''projectId'' of
             Inl e \<Rightarrow> (Inl e, w)
           | Inr project_id \<Rightarrow>
               (case dict_item old_task ''id'' of
                  Inl e \<Rightarrow> (Inl e, w)
                | Inr tid \<Rightarrow>
                    (case get_task client project_id tid w of
                       (Inl e, w1) \<Rightarrow> (Inl e, w1)
                     | (Inr task, w1) \<Rightarrow>
                         (case dict_item task ''status'' of
                            Inl e \<Rightarrow> (Inl e, w1)
                          | Inr status \<Rightarrow>
                              if status = JInt 2
                              then (case dict_item task ''title'' of
                                      Inl e \<Rightarrow> (Inl e, w1)
                                    | Inr title \<Rightarrow>
                                        (case create_task client
                                                (duplicate_task_without_due_date task) w1 of
                                           (Inl e, w2) \<Rightarrow> (Inl e, w2)
                                         | (Inr new_task, w2) \<Rightarrow>
                                             (case dict_item new_task ''id'' of
                                                Inl e \<Rightarrow> (Inl e, w2)
                                              | Inr k \<Rightarrow>
                                                  if \<not> hashable k then (Inl TypeError, w2)
                                                  else duplicate_missing client old_state ids
                                                         (AList.update (py_key k) new_task
                                                            new_state)
                                                         w2)))
                              else duplicate_missing client old_state ids new_state w1)))))"

text \<open>
  The comprehension that keeps the entries whose title, in lower case, starts with
  \<^verbatim>\<open>"zap:"\<close>.
\<close>

fun only_valid :: "(string \<Rightarrow> string) \<Rightarrow> (json \<times> pydict) list \<Rightarrow> exn + (json \<times> pydict) list" where
  "only_valid lower [] = Inr []"
| "only_valid lower (kv # rest) =
     (case dict_item (snd kv) ''title'' of
        Inl e \<Rightarrow> Inl e
      | Inr title \<Rightarrow>
          (case py_lower lower title of
             Inl e \<Rightarrow> Inl e
           | Inr l \<Rightarrow>
               (case only_valid lower rest of
                  Inl e \<Rightarrow> Inl e
                | Inr rest' \<Rightarrow> Inr (if prefix ''zap:'' l then kv # rest' else rest'))))"

text \<open>
  The result is the state handed to \<^verbatim>\<open>save_state\<close>, or the exception that leaves
  the function.
\<close>

definition automation ::
  "(string \<Rightarrow> string) \<Rightarrow> 'w client \<Rightarrow> (string \<times> pydict) list \<Rightarrow> 'w \<Rightarrow>
   (exn + (json \<times> pydict) list) \<times> 'w" where
  "automation lower client old_state w =
     (case get_all_pending_tasks client w of
        (Inl e, w0) \<Rightarrow> (Inl e, w0)
      | (Inr pending, w0) \<Rightarrow>
          (case index_by_id pending [] of
             Inl e \<Rightarrow> (Inl e, w0)
           | Inr new_state \<Rightarrow>
               (case duplicate_missing client old_state
                       (filter (\<lambda>k. JStr k \<notin> set (map fst new_state)) (map fst old_state))
                       new_state w0 of
                  (Inl e, w1) \<Rightarrow> (Inl e, w1)
                | (Inr new_state', w1) \<Rightarrow>
                    (case only_valid lower new_state' of
                       Inl e \<Rightarrow> (Inl e, w1)
                     | Inr valid \<Rightarrow> (Inr valid, w1)))))"

section \<open>Reading the trace\<close>

text \<open>
  The task an event is about; a save is about none. \<open>handled\<close> says what an event of
  the loop over \<open>tasks\<close> can be when the pass starts from the processed set \<open>P\<close>:
  the evaluation of the filter on one of the tasks, or the call of \<^verbatim>\<open>create_task\<close>
  for one of them with the transformer's payload, after the filter returned true, and
  in both cases the identifier of the task is not in \<open>P\<close>.
\<close>

fun event_task :: "event \<Rightarrow> pydict option" where
  "event_task (FilterEvaluated task) = Some task"
| "event_task (CreateTaskCalled task payload) = Some task"
| "event_task (StateSaved ids) = None"

definition handled ::
  "(string \<Rightarrow> string) \<Rightarrow> string option \<Rightarrow> string list \<Rightarrow> json set \<Rightarrow> pydict list \<Rightarrow>
   event \<Rightarrow> bool" where
  "handled lower name_filter tag_filters P tasks ev =
     (\<exists>task \<in> set tasks. py_key (task_id_of task) \<notin> P \<and>
        (ev = FilterEvaluated task \<or>
         ev = CreateTaskCalled task (create_duplicate_task task) \<and>
         matches_filters lower name_filter tag_filters task = Inr True))"

text \<open>
  A client that raises nothing but \<^verbatim>\<open>TickTickAPIError\<close> from \<^verbatim>\<open>create_task\<close>, and a
  task whose fields have the shape the pass reads them in.
\<close>

definition create_raises_api_only :: "'w client \<Rightarrow> bool" where
  "create_raises_api_only client =
     (\<forall>payload w. case fst (create_task client payload w) of
                     Inl e \<Rightarrow> e = TickTickAPIError
                   | Inr new_task \<Rightarrow> True)"

definition task_typed :: "pydict \<Rightarrow> bool" where
  "task_typed task = (filter_fields_typed task \<and> hashable (task_id_of task))"

section \<open>Runs from the state file\<close>

text \<open>
  Between two passes the processed identifiers live in the state file. The file is
  absent (or holds nothing that can be read) or holds the set last saved:
  \<^verbatim>\<open>TaskDuplicator._load_processed_tasks\<close> and \<^verbatim>\<open>get_processed_tasks\<close> return
  the empty set in the first case and the set of the file in the second.
\<close>

definition get_processed_tasks :: "json set option \<Rightarrow> json set" where
  "get_processed_tasks state_file = (case state_file of None \<Rightarrow> {} | Some ids \<Rightarrow> ids)"

text \<open>The set of the last save among the events, if one of them is a save.\<close>

fun saved_set :: "event list \<Rightarrow> json set option" where
  "saved_set [] = None"
| "saved_set (ev # evs) =
     (case saved_set evs of
        Some ids \<Rightarrow> Some ids
      | None \<Rightarrow> (case ev of StateSaved ids \<Rightarrow> Some ids | _ \<Rightarrow> None))"

text \<open>
  One run of the program: \<^verbatim>\<open>run_automation\<close> of main.py, which builds a new
  \<^verbatim>\<open>TaskDuplicator\<close> (its constructor loads the file) and calls
  \<^verbatim>\<open>process_completed_tasks\<close> on it (\<open>require_id\<close> false), or
  \<^verbatim>\<open>run_automation\<close> of automations/duplicate_completed_tasks.py, which loads the
  file itself (\<open>require_id\<close> true). The pass starts from the set loaded; a save
  overwrites the file, and a pass that does not save leaves the file as it was. Writing
  the file is taken to succeed. \<open>runs\<close> is one run after the other, as the polling
  loop of main.py or a scheduler makes them.
\<close>

record 'w installation =
  state_file :: "json set option"
  history :: "event list"
  outside :: 'w

definition run_from_file ::
  "bool \<Rightarrow> (string \<Rightarrow> string) \<Rightarrow> 'w client \<Rightarrow> string option \<Rightarrow> string list \<Rightarrow>
   'w installation \<Rightarrow> 'w installation" where
  "run_from_file require_id lower client name_filter tag_filters inst =
     (let s = \<lparr>processed_task_ids = get_processed_tasks (state_file inst),
                stats = zero_stats, trace = history inst, world = outside inst\<rparr>;
          s' = snd ((if require_id then run_automation else process_completed_tasks)
                      lower client name_filter tag_filters s)
      in \<lparr>state_file = (case saved_set (new_events s s') of
                           None \<Rightarrow> state_file inst
                         | Some ids \<Rightarrow> Some ids),
          history = trace s', outside = world s'\<rparr>)"

fun runs ::
  "nat \<Rightarrow> bool \<Rightarrow> (string \<Rightarrow> string) \<Rightarrow> 'w client \<Rightarrow> string option \<Rightarrow> string list \<Rightarrow>
   'w installation \<Rightarrow> 'w installation" where
  "runs 0 require_id lower client name_filter tag_filters inst = inst"
| "runs (Suc n) require_id lower client name_filter tag_filters inst =
     runs n require_id lower client name_filter tag_filters
       (run_from_file require_id lower client name_filter tag_filters inst)"

text \<open>
  What it is for a list of events to leave the identifiers of \<open>P\<close> alone: no
  evaluation of the filter and no call of \<^verbatim>\<open>create_task\<close> is for a task whose
  identifier is in \<open>P\<close>, and every save writes a set that holds all of \<open>P\<close>.
\<close>

definition spares :: "json set \<Rightarrow> event list \<Rightarrow> bool" where
  "spares P evs =
     (\<forall>ev \<in> set evs.
        case ev of
          FilterEvaluated task \<Rightarrow> py_key (task_id_of task) \<notin> P
        | CreateTaskCalled task payload \<Rightarrow> py_key (task_id_of task) \<notin> P
        | StateSaved ids \<Rightarrow> P \<subseteq> ids)"

text \<open>
  What the statistics of a pass over \<open>tasks\<close> that started from the processed set
  \<open>P\<close> are to satisfy: every matched task was duplicated or counted as an error,
  every task was checked, and no more tasks matched than were not yet in \<open>P\<close>.
\<close>

definition stats_consistent :: "json set \<Rightarrow> pydict list \<Rightarrow> statistics \<Rightarrow> bool" where
  "stats_consistent P tasks st =
     (matched st = duplicated st + errors st \<and> matched st \<le> checked st \<and>
      checked st = int (length tasks) \<and>
      matched st \<le> int (length (filter (\<lambda>t. py_key (task_id_of t) \<notin> P) tasks)))"

section \<open>Example data\<close>

text \<open>
  The task of the specification's end-to-end scenario, a task whose identifier is the
  empty string, and clients over a world with no state: \<open>fixed_client\<close> answers the
  fetch with \<open>fetched\<close> and every \<^verbatim>\<open>create_task\<close> with \<open>created\<close>.
\<close>

definition zap_task :: pydict where
  "zap_task = [''id'' \<mapsto> JStr ''t1'', ''title'' \<mapsto> JStr ''Zap: buy milk'',
               ''tags'' \<mapsto> JList [JStr ''errand''], ''dueDate'' \<mapsto> JStr ''2025-01-01'']"

definition blank_id_task :: pydict where
  "blank_id_task = [''id'' \<mapsto> JStr [], ''title'' \<mapsto> JStr ''Water the plants'']"

definition other_task :: pydict where
  "other_task = [''id'' \<mapsto> JStr ''t2'', ''title'' \<mapsto> JStr ''Water the plants'']"

definition created_task :: pydict where
  "created_task = [''id'' \<mapsto> JStr ''n1'', ''title'' \<mapsto> JStr ''Zap: buy milk'']"

definition fixed_client :: "exn + pydict list \<Rightarrow> exn + pydict \<Rightarrow> unit client" where
  "fixed_client fetched created =
     \<lparr>get_completed_tasks = (\<lambda>w. (fetched, w)),
      get_all_pending_tasks = (\<lambda>w. (Inr [], w)),
      get_task = (\<lambda>project_id task_id w. (Inl TickTickAPIError, w)),
      create_task = (\<lambda>payload w. (created, w))\<rparr>"

definition start_state :: "json set \<Rightarrow> unit run_state" where
  "start_state ids = \<lparr>processed_task_ids = ids, stats = zero_stats, trace = [], world = ()\<rparr>"

text \<open>
  For the pass over the pending tasks: a state file that holds one task, and a client
  for which no task is pending any more, the task has been completed, and
  \<^verbatim>\<open>create_task\<close> answers with the new task.
\<close>

definition pending_zap :: pydict where
  "pending_zap = [''id'' \<mapsto> JStr ''t1'', ''projectId'' \<mapsto> JStr ''p1'',
                  ''title'' \<mapsto> JStr ''Zap: buy milk'', ''status'' \<mapsto> JInt 0,
                  ''tags'' \<mapsto> JList [JStr ''errand'']]"

definition completed_zap :: pydict where
  "completed_zap = pending_zap(''status'' \<mapsto> JInt 2)"

definition completing_client :: "unit client" where
  "completing_client =
     \<lparr>get_completed_tasks = (\<lambda>w. (Inr [], w)),
      get_all_pending_tasks = (\<lambda>w. (Inr [], w)),
      get_task = (\<lambda>project_id task_id w. (Inr completed_zap, w)),
      create_task = (\<lambda>payload w. (Inr (payload(''id'' \<mapsto> JStr ''n1'')), w))\<rparr>"

text \<open>
  For the fetch: one project with one completed task.
\<close>

definition done_task :: json where
  "done_task = JObj [(''id'', JStr ''t1''), (''title'', JStr ''Zap: buy milk''),
                     (''status'', JInt 2)]"

definition one_project :: "unit \<Rightarrow> (exn + pydict list) \<times> unit" where
  "one_project w = (Inr [[''id'' \<mapsto> JStr ''p1'']], w)"

definition one_project_data :: "json \<Rightarrow> unit \<Rightarrow> (exn + pydict) \<times> unit" where
  "one_project_data project_id w = (Inr [''tasks'' \<mapsto> JList [done_task]], w)"

section \<open>Properties of the filter\<close>

lemma str_in_sublist: "str_in a b = sublist a b"
  by (induction b) (simp_all add: sublist_Cons_right)

lemma any_tag_in_list:
  "any_tag_in tags (JList xs) = Inr (\<exists>tag \<in> set tags. JStr tag \<in> set xs)"
  by (induction tags) simp_all

lemma name_filter_ok_typed:
  assumes "filter_fields_typed task"
  shows "name_filter_ok lower name_filter task =
     Inr (name_filter_absent name_filter \<or>
        (\<exists>nf. name_filter = Some nf \<and> sublist (lower nf) (lower (task_title task))))"
  using assms
  by (auto simp: name_filter_ok_def filter_fields_typed_def name_filter_absent_def
      py_lower_def dict_get_def task_title_def str_in_sublist
      split: option.splits json.splits)

lemma tag_filters_ok_typed:
  assumes "filter_fields_typed task"
  shows "tag_filters_ok tag_filters task =
     Inr (tag_filters = [] \<or> task_tag_set task \<inter> set tag_filters \<noteq> {})"
  using assms
  by (auto simp: tag_filters_ok_def filter_fields_typed_def any_tag_in_list
      dict_get_def task_tag_set_def
      split: option.splits json.splits)

lemma matches_filters_typed:
  assumes "filter_fields_typed task"
  shows "matches_filters lower name_filter tag_filters task =
           Inr (spec_filter lower name_filter tag_filters task)"
  using assms
  by (simp add: matches_filters_def name_filter_ok_typed tag_filters_ok_typed spec_filter_def)

lemma py_in_exn: "py_in tag v = Inl e \<Longrightarrow> e = TypeError"
  by (cases v) auto

lemma any_tag_in_exn: "any_tag_in tags v = Inl e \<Longrightarrow> e = TypeError"
  by (induction tags) (auto split: sum.splits if_splits dest: py_in_exn)

lemma matches_filters_exn:
  "matches_filters lower name_filter tag_filters task = Inl e \<Longrightarrow> e \<noteq> TickTickAPIError"
  by (auto simp: matches_filters_def name_filter_ok_def tag_filters_ok_def py_lower_def
      split: sum.splits if_splits option.splits json.splits dest: any_tag_in_exn)

text \<open>
  C2. For a task whose title, if it has one, is a string and whose tags, if it has any,
  are a list, the filter raises nothing and returns true exactly when the name filter is
  absent or is, in lower case, a substring of the title in lower case, and the tag
  filter is absent or shares a tag with the task. With both filters absent it returns
  true.
\<close>

theorem matches_filters_spec:
  assumes "filter_fields_typed task"
  shows "matches_filters lower name_filter tag_filters task =
           Inr (spec_filter lower name_filter tag_filters task) \<and>
         matches_filters lower None [] task = Inr True"
  using assms
  by (simp add: matches_filters_typed spec_filter_def name_filter_absent_def)

theorem matches_filters_spec_witness:
  "filter_fields_typed zap_task \<and>
   matches_filters ascii_lower (Some ''Zap:'') [''errand''] zap_task = Inr True \<and>
   spec_filter ascii_lower (Some ''Zap:'') [''errand''] zap_task \<and>
   matches_filters ascii_lower (Some ''Foo'') [] zap_task = Inr False \<and>
   \<not> spec_filter ascii_lower (Some ''Foo'') [] zap_task"
proof -
  have h: "filter_fields_typed zap_task"
    by (simp add: filter_fields_typed_def zap_task_def)
  have a: "matches_filters ascii_lower (Some ''Zap:'') [''errand''] zap_task = Inr True"
    by (simp add: matches_filters_def name_filter_ok_def tag_filters_ok_def py_lower_def
        dict_get_def zap_task_def ascii_lower_def ascii_lower_char_def)
  have b: "matches_filters ascii_lower (Some ''Foo'') [] zap_task = Inr False"
    by (simp add: matches_filters_def name_filter_ok_def tag_filters_ok_def py_lower_def
        dict_get_def zap_task_def ascii_lower_def ascii_lower_char_def)
  from a b h
    matches_filters_spec [OF h, of ascii_lower "Some ''Zap:''" "[''errand'']"]
    matches_filters_spec [OF h, of ascii_lower "Some ''Foo''" "[]"]
  show ?thesis by simp
qed

section \<open>Properties of the task transformer\<close>

lemma completed_zap_fields:
  "dict_item pending_zap ''projectId'' = Inr (JStr ''p1'')"
  "dict_item pending_zap ''id'' = Inr (JStr ''t1'')"
  "dict_item completed_zap ''status'' = Inr (JInt 2)"
  "dict_item completed_zap ''title'' = Inr (JStr ''Zap: buy milk'')"
  "completed_zap ''tags'' = Some (JList [JStr ''errand''])"
  by (simp_all add: pending_zap_def completed_zap_def dict_item_def)

text \<open>
  What \<^verbatim>\<open>create_duplicate_task\<close> returns, key by key: the six fields of the original
  or their defaults, the checklist when the original has one with a true value, and
  no other key, so no due date, start date or completion time.
\<close>

lemma create_duplicate_task_fields:
  "create_duplicate_task t ''title'' = Some (dict_get t ''title'' JNull)"
  "create_duplicate_task t ''projectId'' = Some (dict_get t ''projectId'' JNull)"
  "create_duplicate_task t ''content'' = Some (dict_get t ''content'' (JStr []))"
  "create_duplicate_task t ''desc'' = Some (dict_get t ''desc'' (JStr []))"
  "create_duplicate_task t ''priority'' = Some (dict_get t ''priority'' (JInt 0))"
  "create_duplicate_task t ''tags'' = Some (dict_get t ''tags'' (JList []))"
  by (simp_all add: create_duplicate_task_def Let_def split: option.splits)

lemma create_duplicate_task_items:
  "create_duplicate_task t ''items'' =
     (case t ''items'' of None \<Rightarrow> None | Some v \<Rightarrow> if truthy v then Some v else None)"
  by (simp add: create_duplicate_task_def Let_def split: option.splits)

lemma create_duplicate_task_dom:
  "dom (create_duplicate_task t) =
     {''title'', ''projectId'', ''content'', ''desc'', ''priority'', ''tags''} \<union>
     (case t ''items'' of None \<Rightarrow> {} | Some v \<Rightarrow> if truthy v then {''items''} else {})"
  by (simp add: create_duplicate_task_def Let_def insert_commute split: option.splits)

lemma create_duplicate_task_no_dates:
  "create_duplicate_task t ''dueDate'' = None"
  "create_duplicate_task t ''startDate'' = None"
  "create_duplicate_task t ''completedTime'' = None"
  by (simp_all add: create_duplicate_task_def Let_def split: option.splits)

text \<open>
  \<^verbatim>\<open>duplicate_task_without_due_date\<close> returns the same but for the tags, which it
  leaves out.
\<close>

lemma duplicate_task_without_due_date_dom:
  "dom (duplicate_task_without_due_date t) =
     {''title'', ''projectId'', ''content'', ''desc'', ''priority''} \<union>
     (case t ''items'' of None \<Rightarrow> {} | Some v \<Rightarrow> if truthy v then {''items''} else {})"
  by (simp add: duplicate_task_without_due_date_def Let_def insert_commute split: option.splits)

text \<open>
  C3. \<^verbatim>\<open>create_duplicate_task\<close> copies the title, project, content, description,
  priority and tags, adds the checklist exactly when the original has one with a true
  value, and has no date (the lemmas above). \<^verbatim>\<open>duplicate_task_without_due_date\<close>
  does not copy the tags: on the completed task \<open>completed_zap\<close>, which has the tag
  \<^verbatim>\<open>errand\<close>, the first returns a payload with the tags of the task and the second
  a payload with no \<^verbatim>\<open>tags\<close> key.
\<close>

theorem pending_duplicate_drops_tags:
  "completed_zap ''tags'' = Some (JList [JStr ''errand'']) \<and>
   create_duplicate_task completed_zap ''tags'' = Some (JList [JStr ''errand'']) \<and>
   duplicate_task_without_due_date completed_zap ''tags'' = None"
  by (simp add: create_duplicate_task_fields completed_zap_fields dict_get_def
      duplicate_task_without_due_date_def Let_def split: option.splits)

section \<open>Properties of the loop\<close>

subsection \<open>One task\<close>

lemmas pt_splits = sum.splits prod.splits if_splits bool.splits

lemma process_task_skip:
  assumes "hashable (task_id_of task)" "py_key (task_id_of task) \<in> processed_task_ids s"
  shows "process_task require_id lower client name_filter tag_filters task s =
           (None, s\<lparr>stats := (stats s)\<lparr>checked := checked (stats s) + 1\<rparr>\<rparr>)"
  using assms by (simp add: process_task_def task_id_of_def Let_def)

lemma process_task_processed:
  assumes "process_task require_id lower client name_filter tag_filters task s = (r, s')"
  shows "processed_task_ids s \<subseteq> processed_task_ids s' \<and>
         processed_task_ids s' \<subseteq> insert (py_key (task_id_of task)) (processed_task_ids s)"
  using assms
  by (auto simp: process_task_def task_id_of_def Let_def split: pt_splits)

lemma process_task_events:
  assumes "process_task require_id lower client name_filter tag_filters task s = (r, s')"
  shows "\<exists>evs. trace s' = trace s @ evs \<and>
           (\<forall>ev \<in> set evs. handled lower name_filter tag_filters (processed_task_ids s) [task] ev)"
  using assms
  by (auto simp: process_task_def task_id_of_def handled_def Let_def split: pt_splits)

lemma process_task_exn:
  assumes "process_task require_id lower client name_filter tag_filters task s = (Some e, s')"
  shows "e \<noteq> TickTickAPIError"
  using assms
  by (auto simp: process_task_def Let_def split: pt_splits dest: matches_filters_exn)

lemma process_task_rejected:
  assumes "process_task require_id lower client name_filter tag_filters task s = (None, s')"
    and "matches_filters lower name_filter tag_filters task = Inr False"
    and "require_id \<longrightarrow> truthy (task_id_of task)"
  shows "py_key (task_id_of task) \<in> processed_task_ids s'"
  using assms
  by (auto simp: process_task_def task_id_of_def Let_def split: pt_splits)

lemma process_task_returns:
  assumes "task_typed task" "create_raises_api_only client"
  shows "fst (process_task require_id lower client name_filter tag_filters task s) = None"
proof -
  have m: "matches_filters lower name_filter tag_filters task =
           Inr (spec_filter lower name_filter tag_filters task)"
    using assms(1) by (simp add: task_typed_def matches_filters_typed)
  have c: "\<And>p w e w'. create_task client p w = (Inl e, w') \<Longrightarrow> e = TickTickAPIError"
  proof -
    fix p w e w' assume a: "create_task client p w = (Inl e, w')"
    from assms(2) have "case fst (create_task client p w) of Inl e \<Rightarrow> e = TickTickAPIError | Inr n \<Rightarrow> True"
      unfolding create_raises_api_only_def by blast
    with a show "e = TickTickAPIError" by simp
  qed
  show ?thesis
    using assms(1) m
    by (auto simp: process_task_def task_typed_def task_id_of_def Let_def split: pt_splits dest: c)
qed

lemma process_task_counts:
  assumes "process_task require_id lower client name_filter tag_filters task s = (r, s')"
  shows "checked (stats s') = checked (stats s) + 1 \<and>
         matched (stats s) \<le> matched (stats s') \<and>
         matched (stats s') \<le> matched (stats s) +
            (if py_key (task_id_of task) \<notin> processed_task_ids s then 1 else 0) \<and>
         (r = None \<longrightarrow> matched (stats s') - duplicated (stats s') - errors (stats s') =
                        matched (stats s) - duplicated (stats s) - errors (stats s))"
  using assms
  by (auto simp: process_task_def task_id_of_def Let_def split: pt_splits)

subsection \<open>The loop\<close>

lemma length_filter_imp:
  "(\<And>x. P x \<Longrightarrow> Q x) \<Longrightarrow> length (filter P xs) \<le> length (filter Q xs)"
  by (induction xs) auto

lemma handled_mono:
  assumes "handled lower name_filter tag_filters P tasks ev" "Q \<subseteq> P" "set tasks \<subseteq> set tasks'"
  shows "handled lower name_filter tag_filters Q tasks' ev"
  using assms unfolding handled_def by blast

lemma process_tasks_append:
  "process_tasks require_id lower client name_filter tag_filters (xs @ ys) s =
     (case process_tasks require_id lower client name_filter tag_filters xs s of
        (None, s1) \<Rightarrow> process_tasks require_id lower client name_filter tag_filters ys s1
      | (Some e, s1) \<Rightarrow> (Some e, s1))"
  by (induction xs arbitrary: s) (auto split: prod.splits option.splits)

lemma process_tasks_processed:
  assumes "process_tasks require_id lower client name_filter tag_filters tasks s = (r, s')"
  shows "processed_task_ids s \<subseteq> processed_task_ids s' \<and>
         processed_task_ids s' \<subseteq>
           processed_task_ids s \<union> (\<lambda>t. py_key (task_id_of t)) ` set tasks"
  using assms
proof (induction tasks arbitrary: s)
  case Nil
  then show ?case by simp
next
  case (Cons task tasks)
  obtain r1 s1 where
    st: "process_task require_id lower client name_filter tag_filters task s = (r1, s1)"
    by (cases "process_task require_id lower client name_filter tag_filters task s")
  note p = process_task_processed [OF st]
  show ?case
  proof (cases r1)
    case None
    with Cons.prems st
    have "process_tasks require_id lower client name_filter tag_filters tasks s1 = (r, s')"
      by simp
    from Cons.IH [OF this] p show ?thesis by auto
  next
    case (Some e)
    with Cons.prems st have "s' = s1" by simp
    with p show ?thesis by auto
  qed
qed

lemma process_tasks_events:
  assumes "process_tasks require_id lower client name_filter tag_filters tasks s = (r, s')"
  shows "\<exists>evs. trace s' = trace s @ evs \<and>
           (\<forall>ev \<in> set evs. handled lower name_filter tag_filters (processed_task_ids s) tasks ev)"
  using assms
proof (induction tasks arbitrary: s)
  case Nil
  then show ?case by simp
next
  case (Cons task tasks)
  obtain r1 s1 where
    st: "process_task require_id lower client name_filter tag_filters task s = (r1, s1)"
    by (cases "process_task require_id lower client name_filter tag_filters task s")
  from process_task_events [OF st] obtain evs1 where
    e1: "trace s1 = trace s @ evs1"
      "\<forall>ev \<in> set evs1. handled lower name_filter tag_filters (processed_task_ids s) [task] ev"
    by blast
  from e1(2)
  have h1: "\<forall>ev \<in> set evs1.
              handled lower name_filter tag_filters (processed_task_ids s) (task # tasks) ev"
    by (auto intro: handled_mono)
  note p = process_task_processed [OF st]
  show ?case
  proof (cases r1)
    case None
    with Cons.prems st
    have "process_tasks require_id lower client name_filter tag_filters tasks s1 = (r, s')"
      by simp
    from Cons.IH [OF this] obtain evs2 where
      e2: "trace s' = trace s1 @ evs2"
        "\<forall>ev \<in> set evs2. handled lower name_filter tag_filters (processed_task_ids s1) tasks ev"
      by blast
    from e2(2) p
    have "\<forall>ev \<in> set evs2.
            handled lower name_filter tag_filters (processed_task_ids s) (task # tasks) ev"
      by (auto intro: handled_mono)
    with e1(1) e2(1) h1 show ?thesis by auto
  next
    case (Some e)
    with Cons.prems st have "s' = s1" by simp
    with e1(1) h1 show ?thesis by auto
  qed
qed

lemma process_tasks_exn:
  assumes "process_tasks require_id lower client name_filter tag_filters tasks s = (Some e, s')"
  shows "e \<noteq> TickTickAPIError"
  using assms
proof (induction tasks arbitrary: s)
  case Nil
  then show ?case by simp
next
  case (Cons task tasks)
  then show ?case
    by (auto split: prod.splits option.splits dest: process_task_exn)
qed

lemma process_tasks_counts:
  assumes "process_tasks require_id lower client name_filter tag_filters tasks s = (r, s')"
  shows "(r = None \<longrightarrow> checked (stats s') = checked (stats s) + int (length tasks)) \<and>
         matched (stats s) \<le> matched (stats s') \<and>
         matched (stats s') \<le> matched (stats s) +
            int (length (filter (\<lambda>t. py_key (task_id_of t) \<notin> processed_task_ids s) tasks)) \<and>
         (r = None \<longrightarrow> matched (stats s') - duplicated (stats s') - errors (stats s') =
                        matched (stats s) - duplicated (stats s) - errors (stats s))"
  using assms
proof (induction tasks arbitrary: s)
  case Nil
  then show ?case by simp
next
  case (Cons task tasks)
  obtain r1 s1 where
    st: "process_task require_id lower client name_filter tag_filters task s = (r1, s1)"
    by (cases "process_task require_id lower client name_filter tag_filters task s")
  note c = process_task_counts [OF st]
  note p = process_task_processed [OF st]
  show ?case
  proof (cases r1)
    case None
    with Cons.prems st
    have rest: "process_tasks require_id lower client name_filter tag_filters tasks s1 = (r, s')"
      by simp
    have "length (filter (\<lambda>t. py_key (task_id_of t) \<notin> processed_task_ids s1) tasks)
          \<le> length (filter (\<lambda>t. py_key (task_id_of t) \<notin> processed_task_ids s) tasks)"
      using p by (intro length_filter_imp) auto
    with Cons.IH [OF rest] c None show ?thesis by auto
  next
    case (Some e)
    with Cons.prems st have "s' = s1" "r = Some e" by simp_all
    with c show ?thesis by auto
  qed
qed

lemma process_tasks_rejected:
  assumes "process_tasks require_id lower client name_filter tag_filters tasks s = (None, s')"
    and "task \<in> set tasks"
    and "matches_filters lower name_filter tag_filters task = Inr False"
    and "require_id \<longrightarrow> truthy (task_id_of task)"
  shows "py_key (task_id_of task) \<in> processed_task_ids s'"
  using assms(1,2)
proof (induction tasks arbitrary: s)
  case Nil
  then show ?case by simp
next
  case (Cons t tasks)
  obtain r1 s1 where
    st: "process_task require_id lower client name_filter tag_filters t s = (r1, s1)"
    by (cases "process_task require_id lower client name_filter tag_filters t s")
  with Cons.prems(1) have r1: "r1 = None"
    and rest: "process_tasks require_id lower client name_filter tag_filters tasks s1 = (None, s')"
    by (auto split: option.splits)
  show ?case
  proof (cases "task = t")
    case True
    with st r1 assms(3,4) have "py_key (task_id_of task) \<in> processed_task_ids s1"
      by (auto dest: process_task_rejected)
    with process_tasks_processed [OF rest] show ?thesis by auto
  next
    case False
    with Cons.prems(2) have "task \<in> set tasks" by simp
    from Cons.IH [OF rest this] show ?thesis .
  qed
qed

lemma process_tasks_returns:
  assumes "\<forall>task \<in> set tasks. task_typed task" "create_raises_api_only client"
  shows "fst (process_tasks require_id lower client name_filter tag_filters tasks s) = None"
  using assms(1)
proof (induction tasks arbitrary: s)
  case Nil
  then show ?case by simp
next
  case (Cons t tasks)
  from Cons.prems assms(2)
  have "fst (process_task require_id lower client name_filter tag_filters t s) = None"
    by (simp add: process_task_returns)
  with Cons show ?case
    by (auto split: prod.splits option.splits)
qed

subsection \<open>A pass\<close>

lemma on_exception_state:
  "processed_task_ids (snd (on_exception e s)) = processed_task_ids s \<and>
   trace (snd (on_exception e s)) = trace s"
  by (simp add: on_exception_def Let_def)

lemma reconcile_processed:
  "processed_task_ids s \<subseteq>
     processed_task_ids (snd (reconcile require_id lower client name_filter tag_filters s))"
proof (cases "get_completed_tasks client (world s)")
  case (Pair f w)
  show ?thesis
  proof (cases f)
    case (Inl e)
    with Pair show ?thesis
      by (simp add: reconcile_def on_exception_def Let_def)
  next
    case (Inr tasks)
    obtain r s' where
      l: "process_tasks require_id lower client name_filter tag_filters tasks
            (s\<lparr>stats := zero_stats, world := w\<rparr>) = (r, s')"
      by (cases "process_tasks require_id lower client name_filter tag_filters tasks
            (s\<lparr>stats := zero_stats, world := w\<rparr>)")
    from process_tasks_processed [OF l] have "processed_task_ids s \<subseteq> processed_task_ids s'"
      by simp
    with Pair Inr l show ?thesis
      by (cases r) (simp_all add: reconcile_def on_exception_def Let_def)
  qed
qed

lemma reconcile_events:
  "\<exists>evs. trace (snd (reconcile require_id lower client name_filter tag_filters s)) =
           trace s @ evs \<and>
         (\<forall>ev \<in> set evs. \<forall>task. event_task ev = Some task \<longrightarrow>
            py_key (task_id_of task) \<notin> processed_task_ids s \<and>
            (\<forall>payload. ev = CreateTaskCalled task payload \<longrightarrow>
               payload = create_duplicate_task task \<and>
               matches_filters lower name_filter tag_filters task = Inr True))"
proof (cases "get_completed_tasks client (world s)")
  case (Pair f w)
  show ?thesis
  proof (cases f)
    case (Inl e)
    with Pair show ?thesis
      by (simp add: reconcile_def on_exception_def Let_def)
  next
    case (Inr tasks)
    obtain r s' where
      l: "process_tasks require_id lower client name_filter tag_filters tasks
            (s\<lparr>stats := zero_stats, world := w\<rparr>) = (r, s')"
      by (cases "process_tasks require_id lower client name_filter tag_filters tasks
            (s\<lparr>stats := zero_stats, world := w\<rparr>)")
    from process_tasks_events [OF l] obtain evs where
      e: "trace s' = trace s @ evs"
        "\<forall>ev \<in> set evs. handled lower name_filter tag_filters (processed_task_ids s) tasks ev"
      by auto
    have h: "\<forall>ev \<in> set evs. \<forall>task. event_task ev = Some task \<longrightarrow>
            py_key (task_id_of task) \<notin> processed_task_ids s \<and>
            (\<forall>payload. ev = CreateTaskCalled task payload \<longrightarrow>
               payload = create_duplicate_task task \<and>
               matches_filters lower name_filter tag_filters task = Inr True)"
      using e(2) by (auto simp: handled_def)
    show ?thesis
    proof (cases r)
      case None
      with Pair Inr l e(1) h show ?thesis
        by (simp add: reconcile_def Let_def)
    next
      case (Some x)
      with Pair Inr l e(1) h show ?thesis
        by (simp add: reconcile_def on_exception_state Let_def)
    qed
  qed
qed

lemma reconcile_fetch_failed:
  assumes "get_completed_tasks client (world s) = (Inl TickTickAPIError, w)"
  shows "reconcile require_id lower client name_filter tag_filters s =
           (Inr \<lparr>checked = 0, matched = 0, duplicated = 0, errors = 1\<rparr>,
            s\<lparr>stats := \<lparr>checked = 0, matched = 0, duplicated = 0, errors = 1\<rparr>, world := w\<rparr>)"
  using assms by (simp add: reconcile_def on_exception_def zero_stats_def Let_def)

lemma reconcile_returned:
  assumes "get_completed_tasks client (world s) = (Inr tasks, w)"
    and "reconcile require_id lower client name_filter tag_filters s = (Inr st, s')"
  shows "\<exists>s1. process_tasks require_id lower client name_filter tag_filters tasks
                (s\<lparr>stats := zero_stats, world := w\<rparr>) = (None, s1) \<and>
              st = stats s1 \<and>
              s' = s1\<lparr>trace := trace s1 @ [StateSaved (processed_task_ids s1)]\<rparr>"
proof -
  obtain r s1 where
    l: "process_tasks require_id lower client name_filter tag_filters tasks
          (s\<lparr>stats := zero_stats, world := w\<rparr>) = (r, s1)"
    by (cases "process_tasks require_id lower client name_filter tag_filters tasks
          (s\<lparr>stats := zero_stats, world := w\<rparr>)")
  show ?thesis
  proof (cases r)
    case None
    with assms l show ?thesis by (auto simp: reconcile_def Let_def)
  next
    case (Some e)
    with l have "e \<noteq> TickTickAPIError" by (auto dest: process_tasks_exn)
    with assms l Some show ?thesis by (simp add: reconcile_def on_exception_def Let_def)
  qed
qed

lemma reconcile_returns:
  assumes "get_completed_tasks client (world s) = (Inr tasks, w)"
    and "\<forall>task \<in> set tasks. task_typed task" "create_raises_api_only client"
  shows "\<exists>st. fst (reconcile require_id lower client name_filter tag_filters s) = Inr st"
proof -
  from process_tasks_returns [OF assms(2,3)]
  have "fst (process_tasks require_id lower client name_filter tag_filters tasks
          (s\<lparr>stats := zero_stats, world := w\<rparr>)) = None" .
  with assms(1) show ?thesis
    by (auto simp: reconcile_def Let_def split: prod.splits option.splits)
qed

lemma reconcile_counts:
  assumes "get_completed_tasks client (world s) = (Inr tasks, w)"
    and "reconcile require_id lower client name_filter tag_filters s = (Inr st, s')"
  shows "matched st = duplicated st + errors st \<and> matched st \<le> checked st \<and>
         checked st = int (length tasks) \<and>
         matched st \<le>
           int (length (filter (\<lambda>t. py_key (task_id_of t) \<notin> processed_task_ids s) tasks))"
proof -
  from reconcile_returned [OF assms] obtain s1 where
    l: "process_tasks require_id lower client name_filter tag_filters tasks
          (s\<lparr>stats := zero_stats, world := w\<rparr>) = (None, s1)"
    and st: "st = stats s1"
    by blast
  from process_tasks_counts [OF l]
  have c: "checked (stats s1) = int (length tasks)"
    "matched (stats s1) \<le>
       int (length (filter (\<lambda>t. py_key (task_id_of t) \<notin> processed_task_ids s) tasks))"
    "matched (stats s1) = duplicated (stats s1) + errors (stats s1)"
    by (simp_all add: zero_stats_def)
  have "int (length (filter (\<lambda>t. py_key (task_id_of t) \<notin> processed_task_ids s) tasks))
          \<le> int (length tasks)"
    by simp
  with c(2) have "matched (stats s1) \<le> int (length tasks)"
    by (rule order_trans)
  with c st show ?thesis by simp
qed

subsection \<open>Evaluating the examples\<close>

lemma zap_task_fields:
  "task_id_of zap_task = JStr ''t1''"
  "dict_get zap_task ''id'' d = JStr ''t1''"
  "dict_get zap_task ''title'' d = JStr ''Zap: buy milk''"
  "dict_get zap_task ''tags'' d = JList [JStr ''errand'']"
  by (simp_all add: zap_task_def dict_get_def task_id_of_def)

lemma other_task_fields:
  "task_id_of other_task = JStr ''t2''"
  "dict_get other_task ''id'' d = JStr ''t2''"
  "dict_get other_task ''title'' d = JStr ''Water the plants''"
  "dict_get other_task ''tags'' (JList []) = JList []"
  by (simp_all add: other_task_def dict_get_def task_id_of_def)

lemma blank_id_task_fields:
  "task_id_of blank_id_task = JStr []"
  "dict_get blank_id_task ''id'' d = JStr []"
  "dict_get blank_id_task ''title'' d = JStr ''Water the plants''"
  by (simp_all add: blank_id_task_def dict_get_def task_id_of_def)

lemma zap_filter_examples:
  "matches_filters ascii_lower (Some ''Zap:'') [] zap_task = Inr True"
  "matches_filters ascii_lower (Some ''Zap:'') [] other_task = Inr False"
  "matches_filters ascii_lower (Some ''Zap:'') [] blank_id_task = Inr False"
  by (simp_all add: matches_filters_def name_filter_ok_def tag_filters_ok_def py_lower_def
      zap_task_fields other_task_fields blank_id_task_fields ascii_lower_def ascii_lower_char_def)

lemmas pass_defs =
  process_completed_tasks_def run_automation_def reconcile_def on_exception_def
  process_task_def Let_def zero_stats_def fixed_client_def start_state_def new_events_def

lemma two_tasks_pass:
  "run_automation ascii_lower (fixed_client (Inr [zap_task, other_task]) (Inr created_task))
     (Some ''Zap:'') [] (start_state {}) =
   (Inr \<lparr>checked = 2, matched = 1, duplicated = 1, errors = 0\<rparr>,
    \<lparr>processed_task_ids = {JStr ''t1'', JStr ''t2''},
     stats = \<lparr>checked = 2, matched = 1, duplicated = 1, errors = 0\<rparr>,
     trace = [FilterEvaluated zap_task, CreateTaskCalled zap_task (create_duplicate_task zap_task),
              FilterEvaluated other_task, StateSaved {JStr ''t1'', JStr ''t2''}],
     world = ()\<rparr>)"
  by (simp add: pass_defs zap_task_fields other_task_fields zap_filter_examples insert_commute)

section \<open>Properties of a pass\<close>

text \<open>
  C1. A task whose identifier is in the processed set when its turn comes is skipped:
  the loop body raises nothing and changes nothing but the count of checked tasks, so
  the filter is not evaluated, \<^verbatim>\<open>create_task\<close> is not called, and the counts of
  matched, duplicated and failed tasks stay as they are. Over a whole pass, of
  \<^verbatim>\<open>process_completed_tasks\<close> as of \<^verbatim>\<open>run_automation\<close>, no call of
  \<^verbatim>\<open>create_task\<close> is made for a task whose identifier was in the processed set when
  the pass started.
\<close>

theorem processed_task_is_skipped:
  "(hashable (task_id_of task) \<and> py_key (task_id_of task) \<in> processed_task_ids s \<longrightarrow>
      process_task require_id lower client name_filter tag_filters task s =
        (None, s\<lparr>stats := (stats s)\<lparr>checked := checked (stats s) + 1\<rparr>\<rparr>)) \<and>
   (\<forall>t payload. py_key (task_id_of t) \<in> processed_task_ids s \<longrightarrow>
      CreateTaskCalled t payload \<notin>
        set (new_events s
              (snd (process_completed_tasks lower client name_filter tag_filters s))) \<and>
      CreateTaskCalled t payload \<notin>
        set (new_events s (snd (run_automation lower client name_filter tag_filters s))))"
proof -
  have pass: "\<forall>t payload. py_key (task_id_of t) \<in> processed_task_ids s \<longrightarrow>
      CreateTaskCalled t payload \<notin>
        set (new_events s (snd (reconcile rq lower client name_filter tag_filters s)))" for rq
  proof -
    from reconcile_events [of rq lower client name_filter tag_filters s] obtain evs where
      e: "trace (snd (reconcile rq lower client name_filter tag_filters s)) = trace s @ evs"
      and h: "\<forall>ev \<in> set evs. \<forall>task. event_task ev = Some task \<longrightarrow>
                py_key (task_id_of task) \<notin> processed_task_ids s"
      by blast
    from e have "new_events s (snd (reconcile rq lower client name_filter tag_filters s)) = evs"
      by (simp add: new_events_def)
    with h show ?thesis by force
  qed
  from pass [of False] pass [of True] show ?thesis
    by (simp add: process_task_skip process_completed_tasks_def run_automation_def)
qed

theorem processed_task_is_skipped_witness:
  "hashable (task_id_of zap_task) \<and>
   py_key (task_id_of zap_task) \<in> processed_task_ids (start_state {JStr ''t1''}) \<and>
   process_task True ascii_lower (fixed_client (Inr [zap_task]) (Inr created_task))
       (Some ''Zap:'') [] zap_task (start_state {JStr ''t1''}) =
     (None, \<lparr>processed_task_ids = {JStr ''t1''},
             stats = \<lparr>checked = 1, matched = 0, duplicated = 0, errors = 0\<rparr>,
             trace = [], world = ()\<rparr>) \<and>
   CreateTaskCalled zap_task (create_duplicate_task zap_task) \<notin>
     set (new_events (start_state {JStr ''t1''})
           (snd (run_automation ascii_lower (fixed_client (Inr [zap_task]) (Inr created_task))
                  (Some ''Zap:'') [] (start_state {JStr ''t1''}))))"
  using processed_task_is_skipped [of zap_task "start_state {JStr ''t1''}" True ascii_lower
      "fixed_client (Inr [zap_task]) (Inr created_task)" "Some ''Zap:''" "[]"]
  by (simp add: zap_task_fields start_state_def zero_stats_def)

lemma reconcile_rejected:
  assumes "get_completed_tasks client (world s) = (Inr tasks, w)"
    and "reconcile require_id lower client name_filter tag_filters s = (Inr st, s')"
    and "task \<in> set tasks"
    and "matches_filters lower name_filter tag_filters task = Inr False"
    and "require_id \<longrightarrow> truthy (task_id_of task)"
  shows "py_key (task_id_of task) \<in> processed_task_ids s' \<and>
         last (trace s') = StateSaved (processed_task_ids s') \<and>
         (\<forall>payload. CreateTaskCalled task payload \<notin> set (new_events s s'))"
proof -
  from reconcile_returned [OF assms(1,2)] obtain s1 where
    l: "process_tasks require_id lower client name_filter tag_filters tasks
          (s\<lparr>stats := zero_stats, world := w\<rparr>) = (None, s1)"
    and s': "s' = s1\<lparr>trace := trace s1 @ [StateSaved (processed_task_ids s1)]\<rparr>"
    by blast
  from process_tasks_rejected [OF l assms(3,4,5)] s'
  have a: "py_key (task_id_of task) \<in> processed_task_ids s'" by simp
  from s' have b: "last (trace s') = StateSaved (processed_task_ids s')" by simp
  from reconcile_events [of require_id lower client name_filter tag_filters s] assms(2)
  obtain evs where
    e: "trace s' = trace s @ evs"
    and h: "\<forall>ev \<in> set evs. \<forall>t. event_task ev = Some t \<longrightarrow>
            (\<forall>payload. ev = CreateTaskCalled t payload \<longrightarrow>
               matches_filters lower name_filter tag_filters t = Inr True)"
    by auto
  from e have n: "new_events s s' = evs" by (simp add: new_events_def)
  have c: "\<forall>payload. CreateTaskCalled task payload \<notin> set (new_events s s')"
  proof (intro allI notI)
    fix payload assume "CreateTaskCalled task payload \<in> set (new_events s s')"
    with n h have "matches_filters lower name_filter tag_filters task = Inr True"
      by force
    with assms(4) show False by simp
  qed
  from a b c show ?thesis by blast
qed

lemma reconcile_not_filtered:
  assumes "py_key (task_id_of t) \<in> processed_task_ids s"
  shows "FilterEvaluated t \<notin>
           set (new_events s (snd (reconcile require_id lower client name_filter tag_filters s)))"
proof -
  from reconcile_events [of require_id lower client name_filter tag_filters s] obtain evs where
    e: "trace (snd (reconcile require_id lower client name_filter tag_filters s)) = trace s @ evs"
    and h: "\<forall>ev \<in> set evs. \<forall>task. event_task ev = Some task \<longrightarrow>
              py_key (task_id_of task) \<notin> processed_task_ids s"
    by blast
  from e have "new_events s (snd (reconcile require_id lower client name_filter tag_filters s)) = evs"
    by (simp add: new_events_def)
  with h assms show ?thesis by force
qed

text \<open>
  C4. Let the fetch return a list with the task, on which the filter
  returns false. If \<^verbatim>\<open>process_completed_tasks\<close> returns its statistics, the
  identifier of the task is in the processed set after the pass, that set is what the
  pass saved last, and the pass made no call of \<^verbatim>\<open>create_task\<close> for the task. The
  same holds of \<^verbatim>\<open>run_automation\<close> when the identifier of the task is a true value
  (the pass skips a task whose identifier is missing or empty before it looks at the
  processed set or the filter). A pass of either function that starts from a processed
  set with the identifier in it does not evaluate the filter on any task that carries
  the identifier, whatever else the task holds by then.
\<close>

theorem rejected_task_is_recorded:
  assumes "get_completed_tasks client (world s) = (Inr tasks, w)"
    and "task \<in> set tasks"
    and "matches_filters lower name_filter tag_filters task = Inr False"
  shows "(\<forall>st s'. process_completed_tasks lower client name_filter tag_filters s = (Inr st, s') \<longrightarrow>
            py_key (task_id_of task) \<in> processed_task_ids s' \<and>
            last (trace s') = StateSaved (processed_task_ids s') \<and>
            (\<forall>payload. CreateTaskCalled task payload \<notin> set (new_events s s'))) \<and>
         (\<forall>st s'. truthy (task_id_of task) \<and>
                  run_automation lower client name_filter tag_filters s = (Inr st, s') \<longrightarrow>
            py_key (task_id_of task) \<in> processed_task_ids s' \<and>
            last (trace s') = StateSaved (processed_task_ids s') \<and>
            (\<forall>payload. CreateTaskCalled task payload \<notin> set (new_events s s'))) \<and>
         (\<forall>s2 t. py_key (task_id_of task) \<in> processed_task_ids s2 \<and>
                 py_key (task_id_of t) = py_key (task_id_of task) \<longrightarrow>
            FilterEvaluated t \<notin>
              set (new_events s2
                    (snd (process_completed_tasks lower client name_filter tag_filters s2))) \<and>
            FilterEvaluated t \<notin>
              set (new_events s2 (snd (run_automation lower client name_filter tag_filters s2))))"
proof -
  have a: "reconcile rq lower client name_filter tag_filters s = (Inr st, s') \<Longrightarrow>
           rq \<longrightarrow> truthy (task_id_of task) \<Longrightarrow>
           py_key (task_id_of task) \<in> processed_task_ids s' \<and>
           last (trace s') = StateSaved (processed_task_ids s') \<and>
           (\<forall>payload. CreateTaskCalled task payload \<notin> set (new_events s s'))" for rq st s'
    using reconcile_rejected [OF assms(1) _ assms(2,3)] by blast
  have b: "py_key (task_id_of task) \<in> processed_task_ids s2 \<Longrightarrow>
           py_key (task_id_of t) = py_key (task_id_of task) \<Longrightarrow>
           FilterEvaluated t \<notin>
             set (new_events s2 (snd (reconcile rq lower client name_filter tag_filters s2)))"
    for rq s2 t
    using reconcile_not_filtered [of t s2] by simp
  show ?thesis
    unfolding process_completed_tasks_def run_automation_def
    using a [of False] a [of True] b [of _ _ False] b [of _ _ True] by blast
qed

lemma rejected_pass:
  "run_automation ascii_lower (fixed_client (Inr [other_task]) (Inr created_task))
     (Some ''Zap:'') [] (start_state {}) =
   (Inr \<lparr>checked = 1, matched = 0, duplicated = 0, errors = 0\<rparr>,
    \<lparr>processed_task_ids = {JStr ''t2''},
     stats = \<lparr>checked = 1, matched = 0, duplicated = 0, errors = 0\<rparr>,
     trace = [FilterEvaluated other_task, StateSaved {JStr ''t2''}],
     world = ()\<rparr>)"
  by (simp add: pass_defs other_task_fields zap_filter_examples)

theorem rejected_task_is_recorded_witness:
  "get_completed_tasks (fixed_client (Inr [other_task]) (Inr created_task))
     (world (start_state {})) = (Inr [other_task], ()) \<and>
   other_task \<in> set [other_task] \<and>
   matches_filters ascii_lower (Some ''Zap:'') [] other_task = Inr False \<and>
   truthy (task_id_of other_task) \<and>
   fst (run_automation ascii_lower (fixed_client (Inr [other_task]) (Inr created_task))
          (Some ''Zap:'') [] (start_state {})) =
     Inr \<lparr>checked = 1, matched = 0, duplicated = 0, errors = 0\<rparr> \<and>
   py_key (task_id_of other_task) \<in>
     processed_task_ids
       (snd (run_automation ascii_lower (fixed_client (Inr [other_task]) (Inr created_task))
          (Some ''Zap:'') [] (start_state {}))) \<and>
   FilterEvaluated other_task \<notin>
     set (new_events (start_state {JStr ''t2''})
       (snd (run_automation ascii_lower (fixed_client (Inr [other_task]) (Inr created_task))
          (Some ''Zap:'') [] (start_state {JStr ''t2''}))))"
proof -
  have f: "get_completed_tasks (fixed_client (Inr [other_task]) (Inr created_task))
     (world (start_state {})) = (Inr [other_task], ())"
    by (simp add: fixed_client_def)
  have m: "other_task \<in> set [other_task]" by simp
  note n = zap_filter_examples(2)
  from rejected_task_is_recorded [OF f m n]
  have "\<forall>s2 t. py_key (task_id_of other_task) \<in> processed_task_ids s2 \<and>
                 py_key (task_id_of t) = py_key (task_id_of other_task) \<longrightarrow>
          FilterEvaluated t \<notin>
              set (new_events s2 (snd (run_automation ascii_lower
                 (fixed_client (Inr [other_task]) (Inr created_task)) (Some ''Zap:'') [] s2)))"
    by blast
  then have "FilterEvaluated other_task \<notin>
     set (new_events (start_state {JStr ''t2''})
       (snd (run_automation ascii_lower (fixed_client (Inr [other_task]) (Inr created_task))
          (Some ''Zap:'') [] (start_state {JStr ''t2''}))))"
    by (simp add: other_task_fields start_state_def)
  with f m n show ?thesis
    by (simp add: rejected_pass other_task_fields)
qed

text \<open>
  C4, the guard at work: \<^verbatim>\<open>run_automation\<close> fetches one task whose identifier is the
  empty string. The filter returns false on it, and the pass returns without the
  identifier in the processed set (and without having evaluated the filter).
\<close>

theorem blank_id_task_not_recorded:
  "get_completed_tasks (fixed_client (Inr [blank_id_task]) (Inr created_task))
     (world (start_state {})) = (Inr [blank_id_task], ()) \<and>
   py_key (task_id_of blank_id_task) \<notin> processed_task_ids (start_state {}) \<and>
   matches_filters ascii_lower (Some ''Zap:'') [] blank_id_task = Inr False \<and>
   run_automation ascii_lower (fixed_client (Inr [blank_id_task]) (Inr created_task))
          (Some ''Zap:'') [] (start_state {}) =
     (Inr \<lparr>checked = 1, matched = 0, duplicated = 0, errors = 0\<rparr>,
      \<lparr>processed_task_ids = {},
       stats = \<lparr>checked = 1, matched = 0, duplicated = 0, errors = 0\<rparr>,
       trace = [StateSaved {}], world = ()\<rparr>) \<and>
   py_key (task_id_of blank_id_task) \<notin>
     processed_task_ids
       (snd (run_automation ascii_lower (fixed_client (Inr [blank_id_task]) (Inr created_task))
          (Some ''Zap:'') [] (start_state {})))"
  by (simp add: pass_defs blank_id_task_fields zap_filter_examples)

lemma not_in_grown:
  "k \<notin> P \<Longrightarrow> \<forall>t \<in> set xs. f t \<noteq> k \<Longrightarrow> Q \<subseteq> P \<union> f ` set xs \<Longrightarrow> k \<notin> Q"
  by blast

lemma reconcile_processed_eq:
  assumes "get_completed_tasks client (world s) = (Inr tasks, w)"
  shows "processed_task_ids (snd (reconcile require_id lower client name_filter tag_filters s)) =
         processed_task_ids
           (snd (process_tasks require_id lower client name_filter tag_filters tasks
                   (s\<lparr>stats := zero_stats, world := w\<rparr>)))"
  using assms
  by (auto simp: reconcile_def on_exception_def Let_def split: prod.splits option.splits)

lemma process_task_create_failed:
  assumes "py_key (task_id_of task) \<notin> processed_task_ids s"
    and "hashable (task_id_of task)"
    and "require_id \<longrightarrow> truthy (task_id_of task)"
    and "matches_filters lower name_filter tag_filters task = Inr True"
    and "create_task client (create_duplicate_task task) (world s) = (Inl TickTickAPIError, w)"
  shows "process_task require_id lower client name_filter tag_filters task s =
           (None,
            s\<lparr>stats := (stats s)\<lparr>checked := checked (stats s) + 1,
                                 matched := matched (stats s) + 1,
                                 errors := errors (stats s) + 1\<rparr>,
               trace := trace s @ [FilterEvaluated task,
                                   CreateTaskCalled task (create_duplicate_task task)],
               world := w\<rparr>)"
  using assms
  by (auto simp: process_task_def task_id_of_def Let_def)

text \<open>
  C5. Let the fetch return the tasks \<open>pre\<close>, then \<open>task\<close>, then \<open>post\<close>, and let
  \<open>s1\<close> be the state when the turn of \<open>task\<close> comes. If \<open>task\<close> is a candidate then
  (its identifier is not in the processed set, and is one the pass accepts), the filter
  returns true on it and \<^verbatim>\<open>create_task\<close> raises \<^verbatim>\<open>TickTickAPIError\<close> on its payload,
  then the loop body raises nothing, adds one to the count of errors (and to those of
  checked and matched tasks) and leaves the processed set as it was; the loop goes on
  with \<open>post\<close> from that state; and after the pass, however it ends, the identifier is
  not in the processed set, provided no task of \<open>post\<close> carries it (identifiers are
  unique in the remote service). \<open>require_id\<close> is false for
  \<^verbatim>\<open>process_completed_tasks\<close> and true for \<^verbatim>\<open>run_automation\<close>.
\<close>

theorem failed_creation_is_isolated:
  assumes "get_completed_tasks client (world s) = (Inr (pre @ task # post), w)"
    and "process_tasks require_id lower client name_filter tag_filters pre
           (s\<lparr>stats := zero_stats, world := w\<rparr>) = (None, s1)"
    and "py_key (task_id_of task) \<notin> processed_task_ids s1"
    and "hashable (task_id_of task)"
    and "require_id \<longrightarrow> truthy (task_id_of task)"
    and "matches_filters lower name_filter tag_filters task = Inr True"
    and "create_task client (create_duplicate_task task) (world s1) = (Inl TickTickAPIError, w1)"
  shows "process_task require_id lower client name_filter tag_filters task s1 =
           (None,
            s1\<lparr>stats := (stats s1)\<lparr>checked := checked (stats s1) + 1,
                                   matched := matched (stats s1) + 1,
                                   errors := errors (stats s1) + 1\<rparr>,
                trace := trace s1 @ [FilterEvaluated task,
                                     CreateTaskCalled task (create_duplicate_task task)],
                world := w1\<rparr>) \<and>
         process_tasks require_id lower client name_filter tag_filters (pre @ task # post)
             (s\<lparr>stats := zero_stats, world := w\<rparr>) =
           process_tasks require_id lower client name_filter tag_filters post
             (snd (process_task require_id lower client name_filter tag_filters task s1)) \<and>
         ((\<forall>t \<in> set post. py_key (task_id_of t) \<noteq> py_key (task_id_of task)) \<longrightarrow>
            py_key (task_id_of task) \<notin>
              processed_task_ids
                (snd ((if require_id then run_automation else process_completed_tasks)
                        lower client name_filter tag_filters s)))"
proof -
  let ?s2 = "snd (process_task require_id lower client name_filter tag_filters task s1)"
  note step = process_task_create_failed [OF assms(3-7)]
  from step have p2: "processed_task_ids ?s2 = processed_task_ids s1" by simp
  have loop: "process_tasks require_id lower client name_filter tag_filters (pre @ task # post)
             (s\<lparr>stats := zero_stats, world := w\<rparr>) =
           process_tasks require_id lower client name_filter tag_filters post ?s2"
    using assms(2) step by (simp add: process_tasks_append)
  have absent: "py_key (task_id_of task) \<notin>
         processed_task_ids
           (snd ((if require_id then run_automation else process_completed_tasks)
                   lower client name_filter tag_filters s))"
    if u: "\<forall>t \<in> set post. py_key (task_id_of t) \<noteq> py_key (task_id_of task)"
  proof -
    obtain r s3 where
      l: "process_tasks require_id lower client name_filter tag_filters post ?s2 = (r, s3)"
      by (cases "process_tasks require_id lower client name_filter tag_filters post ?s2")
    from process_tasks_processed [OF l] p2
    have "processed_task_ids s3 \<subseteq>
            processed_task_ids s1 \<union> (\<lambda>t. py_key (task_id_of t)) ` set post"
      by simp
    with assms(3) u have "py_key (task_id_of task) \<notin> processed_task_ids s3"
      by (rule not_in_grown)
    moreover have "processed_task_ids
           (snd ((if require_id then run_automation else process_completed_tasks)
                   lower client name_filter tag_filters s)) = processed_task_ids s3"
      using reconcile_processed_eq [OF assms(1), of require_id lower name_filter tag_filters]
        loop l
      by (cases require_id) (simp_all add: run_automation_def process_completed_tasks_def)
    ultimately show ?thesis by simp
  qed
  from step loop absent show ?thesis by blast
qed

lemma failed_pass:
  "run_automation ascii_lower (fixed_client (Inr [zap_task, other_task]) (Inl TickTickAPIError))
     (Some ''Zap:'') [] (start_state {}) =
   (Inr \<lparr>checked = 2, matched = 1, duplicated = 0, errors = 1\<rparr>,
    \<lparr>processed_task_ids = {JStr ''t2''},
     stats = \<lparr>checked = 2, matched = 1, duplicated = 0, errors = 1\<rparr>,
     trace = [FilterEvaluated zap_task, CreateTaskCalled zap_task (create_duplicate_task zap_task),
              FilterEvaluated other_task, StateSaved {JStr ''t2''}],
     world = ()\<rparr>)"
  by (simp add: pass_defs zap_task_fields other_task_fields zap_filter_examples)

theorem failed_creation_is_isolated_witness:
  "get_completed_tasks (fixed_client (Inr [zap_task, other_task]) (Inl TickTickAPIError))
     (world (start_state {})) = (Inr ([] @ zap_task # [other_task]), ()) \<and>
   py_key (task_id_of zap_task) \<notin> processed_task_ids (start_state {}) \<and>
   hashable (task_id_of zap_task) \<and> truthy (task_id_of zap_task) \<and>
   matches_filters ascii_lower (Some ''Zap:'') [] zap_task = Inr True \<and>
   create_task (fixed_client (Inr [zap_task, other_task]) (Inl TickTickAPIError))
     (create_duplicate_task zap_task) (world (start_state {})) = (Inl TickTickAPIError, ()) \<and>
   py_key (task_id_of other_task) \<noteq> py_key (task_id_of zap_task) \<and>
   fst (run_automation ascii_lower
          (fixed_client (Inr [zap_task, other_task]) (Inl TickTickAPIError))
          (Some ''Zap:'') [] (start_state {})) =
     Inr \<lparr>checked = 2, matched = 1, duplicated = 0, errors = 1\<rparr> \<and>
   py_key (task_id_of zap_task) \<notin>
     processed_task_ids
       (snd (run_automation ascii_lower
              (fixed_client (Inr [zap_task, other_task]) (Inl TickTickAPIError))
              (Some ''Zap:'') [] (start_state {})))"
proof -
  let ?c = "fixed_client (Inr [zap_task, other_task]) (Inl TickTickAPIError)"
  have f: "get_completed_tasks ?c (world (start_state {})) =
             (Inr ([] @ zap_task # [other_task]), ())"
    by (simp add: fixed_client_def)
  have b: "process_tasks True ascii_lower ?c (Some ''Zap:'') [] []
             ((start_state {})\<lparr>stats := zero_stats, world := ()\<rparr>) = (None, start_state {})"
    by (simp add: start_state_def)
  have k: "py_key (task_id_of zap_task) \<notin> processed_task_ids (start_state {})"
    by (simp add: start_state_def)
  have h: "hashable (task_id_of zap_task)" by (simp add: zap_task_fields)
  have t: "True \<longrightarrow> truthy (task_id_of zap_task)" by (simp add: zap_task_fields)
  note m = zap_filter_examples(1)
  have c: "create_task ?c (create_duplicate_task zap_task) (world (start_state {})) =
             (Inl TickTickAPIError, ())"
    by (simp add: fixed_client_def)
  have u: "\<forall>t \<in> set [other_task]. py_key (task_id_of t) \<noteq> py_key (task_id_of zap_task)"
    by (simp add: zap_task_fields other_task_fields)
  from failed_creation_is_isolated [OF f b k h t m c] u
  have "py_key (task_id_of zap_task) \<notin>
     processed_task_ids (snd (run_automation ascii_lower ?c (Some ''Zap:'') [] (start_state {})))"
    by simp
  with f k h t m c u show ?thesis
    by (simp add: failed_pass)
qed

text \<open>
  C6. When the fetch raises \<^verbatim>\<open>TickTickAPIError\<close>, the pass returns the statistics
  0, 0, 0, 1, the processed set is as it was, and the pass has added nothing to the
  trace: no call of \<^verbatim>\<open>create_task\<close> and no save of the state.
\<close>

theorem fetch_failure_aborts_pass:
  assumes "get_completed_tasks client (world s) = (Inl TickTickAPIError, w)"
  shows "fst (process_completed_tasks lower client name_filter tag_filters s) =
           Inr \<lparr>checked = 0, matched = 0, duplicated = 0, errors = 1\<rparr> \<and>
         processed_task_ids (snd (process_completed_tasks lower client name_filter tag_filters s)) =
           processed_task_ids s \<and>
         new_events s (snd (process_completed_tasks lower client name_filter tag_filters s)) = [] \<and>
         fst (run_automation lower client name_filter tag_filters s) =
           Inr \<lparr>checked = 0, matched = 0, duplicated = 0, errors = 1\<rparr> \<and>
         processed_task_ids (snd (run_automation lower client name_filter tag_filters s)) =
           processed_task_ids s \<and>
         new_events s (snd (run_automation lower client name_filter tag_filters s)) = []"
  by (simp add: process_completed_tasks_def run_automation_def new_events_def
      reconcile_fetch_failed [OF assms])

theorem fetch_failure_aborts_pass_witness:
  "get_completed_tasks (fixed_client (Inl TickTickAPIError) (Inr created_task))
     (world (start_state {JStr ''t0''})) = (Inl TickTickAPIError, ()) \<and>
   fst (run_automation ascii_lower (fixed_client (Inl TickTickAPIError) (Inr created_task))
          (Some ''Zap:'') [] (start_state {JStr ''t0''})) =
     Inr \<lparr>checked = 0, matched = 0, duplicated = 0, errors = 1\<rparr> \<and>
   processed_task_ids
     (snd (run_automation ascii_lower (fixed_client (Inl TickTickAPIError) (Inr created_task))
          (Some ''Zap:'') [] (start_state {JStr ''t0''}))) = {JStr ''t0''} \<and>
   new_events (start_state {JStr ''t0''})
     (snd (run_automation ascii_lower (fixed_client (Inl TickTickAPIError) (Inr created_task))
          (Some ''Zap:'') [] (start_state {JStr ''t0''}))) = []"
proof -
  have h: "get_completed_tasks (fixed_client (Inl TickTickAPIError) (Inr created_task))
     (world (start_state {JStr ''t0''})) = (Inl TickTickAPIError, ())"
    by (simp add: fixed_client_def)
  from h fetch_failure_aborts_pass [OF h, of ascii_lower "Some ''Zap:''" "[]"]
  show ?thesis by (simp add: start_state_def)
qed

text \<open>
  C9. The end-to-end scenario: \<^verbatim>\<open>run_automation\<close> starts from an empty processed
  set with the name filter \<^verbatim>\<open>"Zap:"\<close> and no tag filter, the fetch returns the one
  task \<open>zap_task\<close>, which has a due date, and \<^verbatim>\<open>create_task\<close> succeeds. Then the pass
  returns the statistics 1, 1, 1, 0; \<^verbatim>\<open>create_task\<close> is called once, with a payload
  that has no \<^verbatim>\<open>dueDate\<close>; and the set saved, the last event of the pass, is
  \<open>{"t1"}\<close>.
\<close>

theorem zap_scenario:
  assumes "get_completed_tasks client w = (Inr [zap_task], w1)"
    and "create_task client (create_duplicate_task zap_task) w1 = (Inr new_task, w2)"
  shows "run_automation ascii_lower client (Some ''Zap:'') []
           \<lparr>processed_task_ids = {}, stats = zero_stats, trace = [], world = w\<rparr> =
         (Inr \<lparr>checked = 1, matched = 1, duplicated = 1, errors = 0\<rparr>,
          \<lparr>processed_task_ids = {JStr ''t1''},
           stats = \<lparr>checked = 1, matched = 1, duplicated = 1, errors = 0\<rparr>,
           trace = [FilterEvaluated zap_task,
                    CreateTaskCalled zap_task (create_duplicate_task zap_task),
                    StateSaved {JStr ''t1''}],
           world = w2\<rparr>) \<and>
         zap_task ''dueDate'' = Some (JStr ''2025-01-01'') \<and>
         create_duplicate_task zap_task ''dueDate'' = None"
  using assms
  by (simp add: run_automation_def reconcile_def process_task_def Let_def zero_stats_def
      zap_task_fields zap_filter_examples)
     (simp add: zap_task_def create_duplicate_task_def dict_get_def)

theorem zap_scenario_witness:
  "get_completed_tasks (fixed_client (Inr [zap_task]) (Inr created_task)) () =
     (Inr [zap_task], ()) \<and>
   create_task (fixed_client (Inr [zap_task]) (Inr created_task))
     (create_duplicate_task zap_task) () = (Inr created_task, ()) \<and>
   fst (run_automation ascii_lower (fixed_client (Inr [zap_task]) (Inr created_task))
          (Some ''Zap:'') [] (start_state {})) =
     Inr \<lparr>checked = 1, matched = 1, duplicated = 1, errors = 0\<rparr> \<and>
   processed_task_ids
     (snd (run_automation ascii_lower (fixed_client (Inr [zap_task]) (Inr created_task))
          (Some ''Zap:'') [] (start_state {}))) = {JStr ''t1''}"
proof -
  have f: "get_completed_tasks (fixed_client (Inr [zap_task]) (Inr created_task)) () =
     (Inr [zap_task], ())"
    by (simp add: fixed_client_def)
  have c: "create_task (fixed_client (Inr [zap_task]) (Inr created_task))
     (create_duplicate_task zap_task) () = (Inr created_task, ())"
    by (simp add: fixed_client_def)
  from f c zap_scenario [OF f c] show ?thesis
    by (simp add: start_state_def)
qed

text \<open>
  C10. When the fetch succeeds, the statistics a pass returns satisfy
  matched = duplicated + errors and matched \<le> checked, checked is the number of tasks
  fetched, and matched is at most the number of fetched tasks whose identifier was not
  in the processed set (a task already processed is counted as checked only). The pass
  does return its statistics when the tasks have the fields' shape and
  \<^verbatim>\<open>create_task\<close> raises nothing but \<^verbatim>\<open>TickTickAPIError\<close>.
\<close>

theorem statistics_are_consistent:
  assumes "get_completed_tasks client (world s) = (Inr tasks, w)"
  shows "(\<forall>st. fst (process_completed_tasks lower client name_filter tag_filters s) = Inr st \<longrightarrow>
            stats_consistent (processed_task_ids s) tasks st) \<and>
         (\<forall>st. fst (run_automation lower client name_filter tag_filters s) = Inr st \<longrightarrow>
            stats_consistent (processed_task_ids s) tasks st) \<and>
         ((\<forall>task \<in> set tasks. task_typed task) \<and> create_raises_api_only client \<longrightarrow>
            (\<exists>st. fst (process_completed_tasks lower client name_filter tag_filters s) = Inr st) \<and>
            (\<exists>st. fst (run_automation lower client name_filter tag_filters s) = Inr st))"
proof -
  have a: "fst (reconcile rq lower client name_filter tag_filters s) = Inr st \<Longrightarrow>
        stats_consistent (processed_task_ids s) tasks st" for rq st
  proof -
    assume "fst (reconcile rq lower client name_filter tag_filters s) = Inr st"
    then obtain s' where "reconcile rq lower client name_filter tag_filters s = (Inr st, s')"
      by (cases "reconcile rq lower client name_filter tag_filters s") simp
    from reconcile_counts [OF assms this] show ?thesis
      by (simp add: stats_consistent_def)
  qed
  have b: "(\<forall>task \<in> set tasks. task_typed task) \<and> create_raises_api_only client \<Longrightarrow>
        \<exists>st. fst (reconcile rq lower client name_filter tag_filters s) = Inr st" for rq
    using reconcile_returns [OF assms] by blast
  from a b show ?thesis
    unfolding process_completed_tasks_def run_automation_def by blast
qed

theorem statistics_are_consistent_witness:
  "get_completed_tasks (fixed_client (Inr [zap_task, other_task]) (Inr created_task))
     (world (start_state {})) = (Inr [zap_task, other_task], ()) \<and>
   fst (run_automation ascii_lower (fixed_client (Inr [zap_task, other_task]) (Inr created_task))
     (Some ''Zap:'') [] (start_state {})) =
     Inr \<lparr>checked = 2, matched = 1, duplicated = 1, errors = 0\<rparr> \<and>
   stats_consistent (processed_task_ids (start_state {})) [zap_task, other_task]
     \<lparr>checked = 2, matched = 1, duplicated = 1, errors = 0\<rparr> \<and>
   task_typed zap_task \<and> task_typed other_task \<and>
   create_raises_api_only (fixed_client (Inr [zap_task, other_task]) (Inr created_task))"
proof -
  have t: "task_typed zap_task" "task_typed other_task"
    by (simp_all add: task_typed_def filter_fields_typed_def zap_task_fields other_task_fields)
       (simp_all add: zap_task_def other_task_def)
  have c: "create_raises_api_only (fixed_client (Inr [zap_task, other_task]) (Inr created_task))"
    by (simp add: create_raises_api_only_def fixed_client_def)
  have h: "get_completed_tasks (fixed_client (Inr [zap_task, other_task]) (Inr created_task))
     (world (start_state {})) = (Inr [zap_task, other_task], ())"
    by (simp add: fixed_client_def)
  have r: "fst (run_automation ascii_lower
                 (fixed_client (Inr [zap_task, other_task]) (Inr created_task))
                 (Some ''Zap:'') [] (start_state {})) =
           Inr \<lparr>checked = 2, matched = 1, duplicated = 1, errors = 0\<rparr>"
    by (simp add: two_tasks_pass)
  from h r t c statistics_are_consistent [OF h, of ascii_lower "Some ''Zap:''" "[]"]
  show ?thesis by simp
qed

section \<open>Several passes\<close>

lemma passes_grow:
  "processed_task_ids s \<subseteq> processed_task_ids (passes n lower client name_filter tag_filters s) \<and>
   (\<exists>evs. trace (passes n lower client name_filter tag_filters s) = trace s @ evs \<and>
      (\<forall>ev \<in> set evs. \<forall>task. event_task ev = Some task \<longrightarrow>
         py_key (task_id_of task) \<notin> processed_task_ids s))"
proof (induction n arbitrary: s)
  case 0
  show ?case by simp
next
  case (Suc n)
  let ?s1 = "snd (process_completed_tasks lower client name_filter tag_filters s)"
  have p1: "processed_task_ids s \<subseteq> processed_task_ids ?s1"
    by (simp add: process_completed_tasks_def reconcile_processed)
  from reconcile_events [of False lower client name_filter tag_filters s] obtain evs1 where
    e1: "trace ?s1 = trace s @ evs1"
    and h1: "\<forall>ev \<in> set evs1. \<forall>task. event_task ev = Some task \<longrightarrow>
               py_key (task_id_of task) \<notin> processed_task_ids s"
    unfolding process_completed_tasks_def by blast
  from Suc.IH [of ?s1] obtain evs2 where
    p2: "processed_task_ids ?s1 \<subseteq>
           processed_task_ids (passes n lower client name_filter tag_filters ?s1)"
    and e2: "trace (passes n lower client name_filter tag_filters ?s1) = trace ?s1 @ evs2"
    and h2: "\<forall>ev \<in> set evs2. \<forall>task. event_task ev = Some task \<longrightarrow>
               py_key (task_id_of task) \<notin> processed_task_ids ?s1"
    by blast
  from h2 p1 have h2': "\<forall>ev \<in> set evs2. \<forall>task. event_task ev = Some task \<longrightarrow>
               py_key (task_id_of task) \<notin> processed_task_ids s"
    by (meson subsetD)
  have "trace (passes (Suc n) lower client name_filter tag_filters s) = trace s @ (evs1 @ evs2)"
    using e1 e2 by simp
  moreover from h1 h2' have "\<forall>ev \<in> set (evs1 @ evs2). \<forall>task. event_task ev = Some task \<longrightarrow>
               py_key (task_id_of task) \<notin> processed_task_ids s"
    by (simp add: ball_Un)
  moreover from p1 p2
  have "processed_task_ids s \<subseteq>
          processed_task_ids (passes (Suc n) lower client name_filter tag_filters s)"
    by simp
  ultimately show ?case by blast
qed

lemma spares_Nil: "spares P []"
  by (simp add: spares_def)

lemma spares_append: "spares P (xs @ ys) = (spares P xs \<and> spares P ys)"
  by (auto simp: spares_def)

lemma spares_mono: "spares Q evs \<Longrightarrow> P \<subseteq> Q \<Longrightarrow> spares P evs"
  unfolding spares_def
  by (rule ballI, drule (1) bspec) (auto split: event.splits)

lemma handled_spares:
  assumes "\<forall>ev \<in> set evs. handled lower name_filter tag_filters P tasks ev"
  shows "spares P evs"
  unfolding spares_def
proof
  fix ev assume "ev \<in> set evs"
  with assms have "handled lower name_filter tag_filters P tasks ev" by simp
  then obtain task where "py_key (task_id_of task) \<notin> P"
    "ev = FilterEvaluated task \<or> ev = CreateTaskCalled task (create_duplicate_task task)"
    unfolding handled_def by blast
  then show "case ev of
          FilterEvaluated task \<Rightarrow> py_key (task_id_of task) \<notin> P
        | CreateTaskCalled task payload \<Rightarrow> py_key (task_id_of task) \<notin> P
        | StateSaved ids \<Rightarrow> P \<subseteq> ids"
    by (elim disjE) simp_all
qed

lemma reconcile_spares:
  "spares (processed_task_ids s)
     (new_events s (snd (reconcile require_id lower client name_filter tag_filters s)))"
proof (cases "get_completed_tasks client (world s)")
  case (Pair f w)
  show ?thesis
  proof (cases f)
    case (Inl e)
    with Pair show ?thesis
      by (simp add: reconcile_def on_exception_def new_events_def spares_Nil Let_def)
  next
    case (Inr tasks)
    obtain r s' where
      l: "process_tasks require_id lower client name_filter tag_filters tasks
            (s\<lparr>stats := zero_stats, world := w\<rparr>) = (r, s')"
      by (cases "process_tasks require_id lower client name_filter tag_filters tasks
            (s\<lparr>stats := zero_stats, world := w\<rparr>)")
    from process_tasks_events [OF l] obtain evs where
      e: "trace s' = trace s @ evs"
      and h: "\<forall>ev \<in> set evs.
                handled lower name_filter tag_filters (processed_task_ids s) tasks ev"
      by auto
    from h have sp: "spares (processed_task_ids s) evs" by (rule handled_spares)
    from process_tasks_processed [OF l]
    have p: "processed_task_ids s \<subseteq> processed_task_ids s'" by simp
    show ?thesis
    proof (cases r)
      case None
      from p have "spares (processed_task_ids s) [StateSaved (processed_task_ids s')]"
        by (simp add: spares_def)
      with sp have "spares (processed_task_ids s) (evs @ [StateSaved (processed_task_ids s')])"
        by (simp add: spares_append)
      with Pair Inr l None e show ?thesis
        by (simp add: reconcile_def new_events_def Let_def)
    next
      case (Some x)
      with Pair Inr l e sp show ?thesis
        by (simp add: reconcile_def new_events_def on_exception_state Let_def)
    qed
  qed
qed

lemma trace_extends:
  "trace (snd (reconcile require_id lower client name_filter tag_filters s)) =
     trace s @ new_events s (snd (reconcile require_id lower client name_filter tag_filters s))"
proof -
  from reconcile_events [of require_id lower client name_filter tag_filters s] obtain evs where
    "trace (snd (reconcile require_id lower client name_filter tag_filters s)) = trace s @ evs"
    by blast
  then show ?thesis by (simp add: new_events_def)
qed

lemma saved_set_member: "saved_set evs = Some ids \<Longrightarrow> StateSaved ids \<in> set evs"
  by (induction evs) (auto split: option.splits event.splits)

lemma spares_saved:
  assumes "spares P evs" "saved_set evs = Some ids"
  shows "P \<subseteq> ids"
proof -
  from assms(2) have "StateSaved ids \<in> set evs" by (rule saved_set_member)
  with assms(1) have "case StateSaved ids of
          FilterEvaluated task \<Rightarrow> py_key (task_id_of task) \<notin> P
        | CreateTaskCalled task payload \<Rightarrow> py_key (task_id_of task) \<notin> P
        | StateSaved ids \<Rightarrow> P \<subseteq> ids"
    unfolding spares_def by (rule bspec)
  then show ?thesis by simp
qed

lemma run_from_file_grows:
  "get_processed_tasks (state_file inst) \<subseteq>
     get_processed_tasks
       (state_file (run_from_file require_id lower client name_filter tag_filters inst)) \<and>
   (\<exists>evs. history (run_from_file require_id lower client name_filter tag_filters inst) =
            history inst @ evs \<and>
          spares (get_processed_tasks (state_file inst)) evs)"
proof -
  let ?s = "\<lparr>processed_task_ids = get_processed_tasks (state_file inst),
              stats = zero_stats, trace = history inst, world = outside inst\<rparr>"
  let ?s' = "snd (reconcile require_id lower client name_filter tag_filters ?s)"
  have r: "run_from_file require_id lower client name_filter tag_filters inst =
           \<lparr>state_file = (case saved_set (new_events ?s ?s') of
                             None \<Rightarrow> state_file inst
                           | Some ids \<Rightarrow> Some ids),
            history = trace ?s', outside = world ?s'\<rparr>"
    by (cases require_id)
       (simp_all add: run_from_file_def run_automation_def process_completed_tasks_def Let_def)
  from reconcile_spares [of ?s require_id lower client name_filter tag_filters]
  have sp: "spares (get_processed_tasks (state_file inst)) (new_events ?s ?s')" by simp
  from trace_extends [of require_id lower client name_filter tag_filters ?s]
  have t: "trace ?s' = history inst @ new_events ?s ?s'" by simp
  have g: "get_processed_tasks (state_file inst) \<subseteq>
           get_processed_tasks (case saved_set (new_events ?s ?s') of
                             None \<Rightarrow> state_file inst
                           | Some ids \<Rightarrow> Some ids)"
  proof (cases "saved_set (new_events ?s ?s')")
    case None
    then show ?thesis by simp
  next
    case (Some ids)
    with spares_saved [OF sp Some] show ?thesis
      by (simp add: get_processed_tasks_def)
  qed
  from g sp t show ?thesis unfolding r by simp
qed

lemma runs_grow:
  "get_processed_tasks (state_file inst) \<subseteq>
     get_processed_tasks (state_file (runs n require_id lower client name_filter tag_filters inst)) \<and>
   (\<exists>evs. history (runs n require_id lower client name_filter tag_filters inst) =
            history inst @ evs \<and>
          spares (get_processed_tasks (state_file inst)) evs)"
proof (induction n arbitrary: inst)
  case 0
  show ?case by (simp add: spares_Nil)
next
  case (Suc n)
  let ?i1 = "run_from_file require_id lower client name_filter tag_filters inst"
  from run_from_file_grows [of inst require_id lower client name_filter tag_filters]
  obtain evs1 where
    g1: "get_processed_tasks (state_file inst) \<subseteq> get_processed_tasks (state_file ?i1)"
    and h1: "history ?i1 = history inst @ evs1"
    and s1: "spares (get_processed_tasks (state_file inst)) evs1"
    by blast
  from Suc.IH [of ?i1] obtain evs2 where
    g2: "get_processed_tasks (state_file ?i1) \<subseteq>
           get_processed_tasks
             (state_file (runs n require_id lower client name_filter tag_filters ?i1))"
    and h2: "history (runs n require_id lower client name_filter tag_filters ?i1) =
               history ?i1 @ evs2"
    and s2: "spares (get_processed_tasks (state_file ?i1)) evs2"
    by blast
  from s2 g1 have "spares (get_processed_tasks (state_file inst)) evs2"
    by (rule spares_mono)
  with s1 have "spares (get_processed_tasks (state_file inst)) (evs1 @ evs2)"
    by (simp add: spares_append)
  moreover from h1 h2
  have "history (runs (Suc n) require_id lower client name_filter tag_filters inst) =
          history inst @ (evs1 @ evs2)"
    by simp
  moreover from g1 g2
  have "get_processed_tasks (state_file inst) \<subseteq>
          get_processed_tasks
            (state_file (runs (Suc n) require_id lower client name_filter tag_filters inst))"
    by simp
  ultimately show ?case by blast
qed

lemma passes_spare:
  "\<exists>evs. trace (passes n lower client name_filter tag_filters s) = trace s @ evs \<and>
         spares (processed_task_ids s) evs"
proof (induction n arbitrary: s)
  case 0
  show ?case by (simp add: spares_Nil)
next
  case (Suc n)
  let ?s1 = "snd (process_completed_tasks lower client name_filter tag_filters s)"
  have p1: "processed_task_ids s \<subseteq> processed_task_ids ?s1"
    by (simp add: process_completed_tasks_def reconcile_processed)
  have t1: "trace ?s1 = trace s @ new_events s ?s1"
    using trace_extends [of False lower client name_filter tag_filters s]
    by (simp add: process_completed_tasks_def)
  have s1: "spares (processed_task_ids s) (new_events s ?s1)"
    using reconcile_spares [of s False lower client name_filter tag_filters]
    by (simp add: process_completed_tasks_def)
  from Suc.IH [of ?s1] obtain evs2 where
    t2: "trace (passes n lower client name_filter tag_filters ?s1) = trace ?s1 @ evs2"
    and s2: "spares (processed_task_ids ?s1) evs2"
    by blast
  from s2 p1 have "spares (processed_task_ids s) evs2" by (rule spares_mono)
  with s1 have "spares (processed_task_ids s) (new_events s ?s1 @ evs2)"
    by (simp add: spares_append)
  moreover from t1 t2
  have "trace (passes (Suc n) lower client name_filter tag_filters s) =
          trace s @ (new_events s ?s1 @ evs2)"
    by simp
  ultimately show ?case by blast
qed


text \<open>
  C7. In the passes over the completed tasks, an identifier of the processed set is
  never removed and its task never processed again. For one pass of
  \<^verbatim>\<open>process_completed_tasks\<close> or of \<^verbatim>\<open>run_automation\<close>, from whatever set it
  starts with and however it ends: the set it ends with holds the set it started with,
  what it saves holds it too, and it neither evaluates the filter on nor calls
  \<^verbatim>\<open>create_task\<close> for a task that carries an identifier of it, whatever the remote
  service reports of the task. For any number of runs one after the other, each loading
  the state file the one before left: the set in the file only grows, and no run
  touches a task that carries an identifier the file held at the start. The same for
  any number of calls of \<^verbatim>\<open>process_completed_tasks\<close> on one \<^verbatim>\<open>TaskDuplicator\<close>.
\<close>

theorem processed_set_only_grows:
  "processed_task_ids s \<subseteq>
     processed_task_ids (snd (process_completed_tasks lower client name_filter tag_filters s)) \<and>
   spares (processed_task_ids s)
     (new_events s (snd (process_completed_tasks lower client name_filter tag_filters s))) \<and>
   processed_task_ids s \<subseteq>
     processed_task_ids (snd (run_automation lower client name_filter tag_filters s)) \<and>
   spares (processed_task_ids s)
     (new_events s (snd (run_automation lower client name_filter tag_filters s))) \<and>
   get_processed_tasks (state_file inst) \<subseteq>
     get_processed_tasks
       (state_file (runs n require_id lower client name_filter tag_filters inst)) \<and>
   spares (get_processed_tasks (state_file inst))
     (drop (length (history inst))
        (history (runs n require_id lower client name_filter tag_filters inst))) \<and>
   processed_task_ids s \<subseteq> processed_task_ids (passes n lower client name_filter tag_filters s) \<and>
   spares (processed_task_ids s)
     (new_events s (passes n lower client name_filter tag_filters s))"
proof -
  have one: "processed_task_ids s \<subseteq>
               processed_task_ids (snd (reconcile rq lower client name_filter tag_filters s)) \<and>
             spares (processed_task_ids s)
               (new_events s (snd (reconcile rq lower client name_filter tag_filters s)))" for rq
    by (simp add: reconcile_processed reconcile_spares)
  from runs_grow [of inst n require_id lower client name_filter tag_filters] obtain evs where
    g: "get_processed_tasks (state_file inst) \<subseteq>
          get_processed_tasks
            (state_file (runs n require_id lower client name_filter tag_filters inst))"
    and h: "history (runs n require_id lower client name_filter tag_filters inst) =
              history inst @ evs"
    and sp: "spares (get_processed_tasks (state_file inst)) evs"
    by blast
  from h sp have many: "spares (get_processed_tasks (state_file inst))
     (drop (length (history inst))
        (history (runs n require_id lower client name_filter tag_filters inst)))"
    by simp
  from passes_spare [of n lower client name_filter tag_filters s] obtain evs' where
    "trace (passes n lower client name_filter tag_filters s) = trace s @ evs'"
    "spares (processed_task_ids s) evs'"
    by blast
  then have obj: "spares (processed_task_ids s)
     (new_events s (passes n lower client name_filter tag_filters s))"
    by (simp add: new_events_def)
  from passes_grow [of s n lower client name_filter tag_filters]
  have grow: "processed_task_ids s \<subseteq>
                processed_task_ids (passes n lower client name_filter tag_filters s)"
    by blast
  from one [of False] one [of True] g many obj grow show ?thesis
    by (simp add: process_completed_tasks_def run_automation_def)
qed

lemma two_runs:
  "runs (Suc (Suc 0)) True ascii_lower
     (fixed_client (Inr [zap_task, other_task]) (Inr created_task)) (Some ''Zap:'') []
     \<lparr>state_file = Some {JStr ''t1''}, history = [], outside = ()\<rparr> =
   \<lparr>state_file = Some {JStr ''t1'', JStr ''t2''},
    history = [FilterEvaluated other_task, StateSaved {JStr ''t1'', JStr ''t2''},
               StateSaved {JStr ''t1'', JStr ''t2''}],
    outside = ()\<rparr>"
  by (simp add: run_from_file_def get_processed_tasks_def pass_defs zap_task_fields
      other_task_fields zap_filter_examples insert_commute)

theorem processed_set_only_grows_witness:
  "JStr ''t1'' \<in>
     get_processed_tasks
       (state_file \<lparr>state_file = Some {JStr ''t1''}, history = [], outside = ()\<rparr>) \<and>
   JStr ''t1'' \<in>
     get_processed_tasks
       (state_file
          (runs (Suc (Suc 0)) True ascii_lower
             (fixed_client (Inr [zap_task, other_task]) (Inr created_task)) (Some ''Zap:'') []
             \<lparr>state_file = Some {JStr ''t1''}, history = [], outside = ()\<rparr>)) \<and>
   history
     (runs (Suc (Suc 0)) True ascii_lower
        (fixed_client (Inr [zap_task, other_task]) (Inr created_task)) (Some ''Zap:'') []
        \<lparr>state_file = Some {JStr ''t1''}, history = [], outside = ()\<rparr>) =
     [FilterEvaluated other_task, StateSaved {JStr ''t1'', JStr ''t2''},
      StateSaved {JStr ''t1'', JStr ''t2''}] \<and>
   spares {JStr ''t1''}
     [FilterEvaluated other_task, StateSaved {JStr ''t1'', JStr ''t2''},
      StateSaved {JStr ''t1'', JStr ''t2''}]"
proof -
  have a: "get_processed_tasks
       (state_file \<lparr>state_file = Some {JStr ''t1''}, history = [], outside = ()\<rparr>) =
       {JStr ''t1''}"
    by (simp add: get_processed_tasks_def)
  from processed_set_only_grows [of "start_state {}" ascii_lower
      "fixed_client (Inr [zap_task, other_task]) (Inr created_task)" "Some ''Zap:''" "[]"
      "\<lparr>state_file = Some {JStr ''t1''}, history = [], outside = ()\<rparr>" "Suc (Suc 0)" True]
  have "spares {JStr ''t1''}
     (drop 0 (history
     (runs (Suc (Suc 0)) True ascii_lower
        (fixed_client (Inr [zap_task, other_task]) (Inr created_task)) (Some ''Zap:'') []
        \<lparr>state_file = Some {JStr ''t1''}, history = [], outside = ()\<rparr>)))"
    unfolding a by simp
  then show ?thesis
    by (simp add: two_runs get_processed_tasks_def del: runs.simps)
qed

subsection \<open>The pass over the pending tasks\<close>

text \<open>
  C7 in the pass over the pending tasks. The state file holds the task \<^verbatim>\<open>t1\<close>;
  the task has been completed and is pending no
  more. The pass duplicates it, and the state it saves holds the new task only: the
  identifier \<^verbatim>\<open>t1\<close> has left the record.
\<close>

theorem pending_pass_evicts:
  "map fst [(''t1'', pending_zap)] = [''t1''] \<and>
   fst (automation ascii_lower completing_client [(''t1'', pending_zap)] ()) =
     Inr [(JStr ''n1'', (duplicate_task_without_due_date completed_zap)(''id'' \<mapsto> JStr ''n1''))] \<and>
   JStr ''t1'' \<notin>
     set (map fst [(JStr ''n1'',
                    (duplicate_task_without_due_date completed_zap)(''id'' \<mapsto> JStr ''n1''))])"
proof -
  have t: "dict_item ((duplicate_task_without_due_date completed_zap)(''id'' \<mapsto> JStr ''n1''))
             ''title'' = Inr (JStr ''Zap: buy milk'')"
    by (simp add: duplicate_task_without_due_date_def completed_zap_def pending_zap_def
        dict_item_def dict_get_def)
  have i: "dict_item ((duplicate_task_without_due_date completed_zap)(''id'' \<mapsto> JStr ''n1''))
             ''id'' = Inr (JStr ''n1'')"
    by (simp add: dict_item_def)
  show ?thesis
    by (simp add: automation_def completing_client_def completed_zap_fields t i py_lower_def
        ascii_lower_def ascii_lower_char_def)
qed

section \<open>Properties of the fetch\<close>

lemma scan_project_tasks_same:
  "scan_project_tasks tasks completed_tasks = Inr r \<Longrightarrow> r = completed_tasks"
  by (induction tasks) (auto split: json.splits if_splits sum.splits)

lemma scan_projects_same:
  "scan_projects get_project_data project_ids completed_tasks w = (Inr r, w') \<Longrightarrow>
   r = completed_tasks"
proof (induction project_ids arbitrary: w)
  case Nil
  then show ?case by simp
next
  case (Cons p ps)
  then show ?case
    by (auto split: prod.splits sum.splits dest: scan_project_tasks_same)
qed

text \<open>
  Whatever the remote service answers, the list the function returns is empty.
\<close>

lemma get_completed_tasks_empty:
  assumes "TickTickClient_get_completed_tasks get_projects get_project_data project_id
             from_date w = (Inr r, w')"
  shows "r = []"
proof (cases project_id)
  case None
  with assms show ?thesis
    by (auto simp: TickTickClient_get_completed_tasks_def simp del: scan_projects.simps
        split: prod.splits sum.splits dest: scan_projects_same)
next
  case (Some p)
  with assms have "scan_projects get_project_data [p] [] w = (Inr r, w')"
    by (simp add: TickTickClient_get_completed_tasks_def del: scan_projects.simps)
  then show ?thesis by (rule scan_projects_same)
qed

text \<open>
  C8. The remote service has one project, whose one task has status 2. The tasks to
  return are that task; the function returns the empty list.
\<close>

theorem completed_task_not_returned:
  "completed_of [done_task] = [done_task] \<and>
   TickTickClient_get_completed_tasks one_project one_project_data None None () = (Inr [], ())"
  by (simp add: completed_of_def done_task_def dict_get_def dict_item_def
      TickTickClient_get_completed_tasks_def one_project_def one_project_data_def)

end
